theory Spec2Isabelle
  imports Main
begin

section \<open>The permit validity cache of parkkihubi\<close>

text \<open>
  A shallow embedding of \<^verbatim>\<open>parkings/models/permit.py\<close>: the tables of the
  permit subsystem as lists of rows, the cache builder \<^verbatim>\<open>Permit._make_cache_items\<close>,
  the write paths \<^verbatim>\<open>Permit.save\<close> and \<^verbatim>\<open>PermitQuerySet.bulk_create\<close>, the
  queries of \<^verbatim>\<open>PermitQuerySet\<close> and \<^verbatim>\<open>PermitSeriesQuerySet\<close>, and the
  activation scenario of \<^verbatim>\<open>test_activate_permit_series.py\<close>.
\<close>

subsection \<open>Data model\<close>

text \<open>
  A point in time is an integer (a count of microseconds, the resolution of a Python
  datetime); only its order is used by the code.
\<close>

type_synonym timestamp = int

datatype error = ValidationError | IntegrityError | DoesNotExist

text \<open>
  \<^verbatim>\<open>PermitSeries\<close>: the \<^verbatim>\<open>active\<close> flag and the two timestamps of
  \<^verbatim>\<open>TimestampedModelMixin\<close> that \<^verbatim>\<open>latest_active\<close> and \<^verbatim>\<open>prunable\<close>
  read. The primary key is \<^verbatim>\<open>None\<close> until the instance has been inserted.
\<close>

record PermitSeries =
  series_pk :: "nat option"
  created_at :: timestamp
  modified_at :: timestamp
  active :: bool

text \<open>
  One entry of the JSON list \<^verbatim>\<open>Permit.subjects\<close>, with the keys of its schema
  (\<^verbatim>\<open>start_time\<close>, \<^verbatim>\<open>end_time\<close>, \<^verbatim>\<open>registration_number\<close>), and one
  entry of \<^verbatim>\<open>Permit.areas\<close> (\<^verbatim>\<open>start_time\<close>, \<^verbatim>\<open>end_time\<close>,
  \<^verbatim>\<open>area\<close>). The field names carry the list's name because a record field is a
  global constant.
\<close>

record subject =
  subject_start_time :: timestamp
  subject_end_time :: timestamp
  subject_registration_number :: string

record area_entry =
  area_start_time :: timestamp
  area_end_time :: timestamp
  area :: string

text \<open>
  \<^verbatim>\<open>Permit\<close>: the fields declared in the class body, and the primary key. The
  timestamps of the mixin are read by no operation of the module and are left out.
\<close>

record Permit =
  permit_pk :: "nat option"
  series :: nat
  external_id :: "string option"
  subjects :: "subject list"
  areas :: "area_entry list"

text \<open>
  \<^verbatim>\<open>PermitCacheItem\<close>. The foreign key \<^verbatim>\<open>permit\<close> holds the primary key of
  the owning permit. The row's own automatic primary key is not represented: rows are
  compared by content, and a permit may own several equal rows (the table is a list).
\<close>

record PermitCacheItem =
  permit :: "nat option"
  registration_number :: string
  area_identifier :: string
  start_time :: timestamp
  end_time :: timestamp

text \<open>The database: one list of rows per table.\<close>

record store =
  permit_series_rows :: "PermitSeries list"
  permit_rows :: "Permit list"
  cache_rows :: "PermitCacheItem list"

definition empty_store :: store where
  "empty_store = \<lparr>permit_series_rows = [], permit_rows = [], cache_rows = []\<rparr>"

subsection \<open>Registration-number normalization\<close>

definition upper_char :: "char \<Rightarrow> char" where
  "upper_char c =
     (let n = (of_char c :: nat)
      in if 97 \<le> n \<and> n \<le> 122 then char_of (n - 32) else c)"

definition is_formatting :: "char \<Rightarrow> bool" where
  "is_formatting c =
     (let n = (of_char c :: nat)
      in n \<le> 47 \<or> (58 \<le> n \<and> n \<le> 64) \<or> (91 \<le> n \<and> n \<le> 96) \<or> (123 \<le> n \<and> n \<le> 127))"

text \<open>
  Modelled from the spec: \<^verbatim>\<open>Parking.normalize_reg_num\<close> lives in
  \<^verbatim>\<open>parkings/models/parking.py\<close>, which is not among the sources. Section 4.1 of
  the specification describes it as a pure function to a canonical form with white space,
  case and formatting normalized, under which "ABC 123", "abc-123" and "ABC123" are the
  same vehicle. Here: ASCII letters are upper-cased, and ASCII white space, control
  characters and punctuation are dropped.
\<close>

definition normalize_reg_num :: "string \<Rightarrow> string" where
  "normalize_reg_num reg =
     map upper_char (filter (\<lambda>c. \<not> is_formatting c) reg)"

subsection \<open>The cache builder\<close>

text \<open>
  The body of the inner loop of \<^verbatim>\<open>_make_cache_items\<close>: \<^verbatim>\<open>continue\<close> yields
  nothing, \<^verbatim>\<open>yield\<close> one item.
\<close>

definition make_cache_item :: "Permit \<Rightarrow> area_entry \<Rightarrow> subject \<Rightarrow> PermitCacheItem list" where
  "make_cache_item self a sub =
     (let max_start_time = max (subject_start_time sub) (area_start_time a);
          min_end_time = min (subject_end_time sub) (area_end_time a)
      in if max_start_time \<ge> min_end_time then []
         else [\<lparr>permit = permit_pk self,
                registration_number = normalize_reg_num (subject_registration_number sub),
                area_identifier = area a,
                start_time = max_start_time,
                end_time = min_end_time\<rparr>])"

text \<open>The generator, as the list of what it yields: areas outside, subjects inside.\<close>

definition make_cache_items :: "Permit \<Rightarrow> PermitCacheItem list" where
  "make_cache_items self =
     concat (map (\<lambda>a. concat (map (\<lambda>sub. make_cache_item self a sub) (subjects self)))
                 (areas self))"

subsection \<open>Queries\<close>

text \<open>\<^verbatim>\<open>PermitCacheItemQuerySet\<close>: a query set is the list of the rows it selects.\<close>

definition cache_by_time :: "PermitCacheItem list \<Rightarrow> timestamp \<Rightarrow> PermitCacheItem list" where
  "cache_by_time self timestamp =
     filter (\<lambda>c. start_time c \<le> timestamp \<and> end_time c \<ge> timestamp) self"

definition by_registration_number :: "PermitCacheItem list \<Rightarrow> string \<Rightarrow> PermitCacheItem list" where
  "by_registration_number self reg = filter (\<lambda>c. registration_number c = reg) self"

definition cache_by_area :: "PermitCacheItem list \<Rightarrow> string \<Rightarrow> PermitCacheItem list" where
  "cache_by_area self ident = filter (\<lambda>c. area_identifier c = ident) self"

text \<open>
  \<^verbatim>\<open>self.filter(cache_items__in=cache_items)\<close>: the join of the permits of
  \<^verbatim>\<open>self\<close> with their cache rows (the reverse side of the foreign key), kept where
  the cache row is one of \<^verbatim>\<open>cache_items\<close>. A permit comes once per matching row.
\<close>

definition filter_cache_items_in :: "store \<Rightarrow> Permit list \<Rightarrow> PermitCacheItem list \<Rightarrow> Permit list" where
  "filter_cache_items_in db self cache_items =
     concat (map (\<lambda>p. map (\<lambda>c. p)
                         (filter (\<lambda>c. permit c = permit_pk p \<and> c \<in> set cache_items)
                                 (cache_rows db)))
                 self)"

text \<open>\<^verbatim>\<open>.distinct()\<close> removes repeated rows.\<close>

definition by_time :: "store \<Rightarrow> Permit list \<Rightarrow> timestamp \<Rightarrow> Permit list" where
  "by_time db self timestamp =
     (let cache_items = cache_by_time (cache_rows db) timestamp
      in remdups (filter_cache_items_in db self cache_items))"

definition by_subject :: "store \<Rightarrow> Permit list \<Rightarrow> string \<Rightarrow> Permit list" where
  "by_subject db self reg =
     (let cache_items = by_registration_number (cache_rows db) (normalize_reg_num reg)
      in remdups (filter_cache_items_in db self cache_items))"

definition by_area :: "store \<Rightarrow> Permit list \<Rightarrow> string \<Rightarrow> Permit list" where
  "by_area db self ident =
     (let cache_items = cache_by_area (cache_rows db) ident
      in remdups (filter_cache_items_in db self cache_items))"

definition permit_active :: "store \<Rightarrow> Permit list \<Rightarrow> Permit list" where
  "permit_active db self =
     filter (\<lambda>p. \<exists>s \<in> set (permit_series_rows db). series_pk s = Some (series p) \<and> active s) self"

subsection \<open>Validation\<close>

text \<open>
  Modelled from the spec: the validators \<^verbatim>\<open>DictListValidator\<close>,
  \<^verbatim>\<open>TextField\<close> and \<^verbatim>\<open>TimestampField\<close> live in
  \<^verbatim>\<open>parkings/validators.py\<close>, which is not among the sources. The schemas are
  the ones written at the fields \<^verbatim>\<open>Permit.subjects\<close> and
  \<^verbatim>\<open>Permit.areas\<close>. An entry of the model has the schema's keys and parsed
  timestamps by its type, so what remains of the schema is the length bound of its text
  field. An empty list has no entry to reject (both fields are \<^verbatim>\<open>blank=True\<close>).
\<close>

definition TextField :: "nat \<Rightarrow> string \<Rightarrow> bool" where
  "TextField max_length v = (length v \<le> max_length)"

definition subjects_validator :: "subject list \<Rightarrow> bool" where
  "subjects_validator v = list_all (\<lambda>item. TextField 20 (subject_registration_number item)) v"

definition areas_validator :: "area_entry list \<Rightarrow> bool" where
  "areas_validator v = list_all (\<lambda>item. TextField 10 (area item)) v"

text \<open>
  \<^verbatim>\<open>unique_together = [('series', 'external_id')]\<close>: no other row has the same
  series and the same external identifier; a permit without external identifier is never
  in conflict.
\<close>

definition unique_together :: "store \<Rightarrow> Permit \<Rightarrow> bool" where
  "unique_together db self =
     (case external_id self of
        None \<Rightarrow> True
      | Some e \<Rightarrow>
          list_all (\<lambda>p. \<not> (series p = series self \<and> external_id p = Some e
                              \<and> permit_pk p \<noteq> permit_pk self))
                   (permit_rows db))"

text \<open>
  \<^verbatim>\<open>Model.full_clean\<close> on a permit: the validators of the fields
  (\<^verbatim>\<open>external_id\<close> has \<^verbatim>\<open>max_length=50\<close>), then the uniqueness check.
  Every failure is a \<^verbatim>\<open>ValidationError\<close>.
\<close>

definition full_clean :: "store \<Rightarrow> Permit \<Rightarrow> error + unit" where
  "full_clean db self =
     (if (case external_id self of None \<Rightarrow> False | Some e \<Rightarrow> length e > 50)
        then Inl ValidationError
      else if \<not> subjects_validator (subjects self) then Inl ValidationError
      else if \<not> areas_validator (areas self) then Inl ValidationError
      else if \<not> unique_together db self then Inl ValidationError
      else Inr ())"

subsection \<open>Transactions\<close>

text \<open>
  The body of a \<^verbatim>\<open>with transaction.atomic(...)\<close> block maps the database to
  either a result and the database it has written, or the exception it raises together
  with the database as the block had written it at the raise. \<^verbatim>\<open>atomic\<close> commits
  the former and rolls the latter back: the caller keeps the database it had.
\<close>

type_synonym 'a transaction = "store \<Rightarrow> (error \<times> store) + ('a \<times> store)"

definition atomic :: "'a transaction \<Rightarrow> store \<Rightarrow> error + ('a \<times> store)" where
  "atomic body db = (case body db of Inl (e, dirty) \<Rightarrow> Inl e | Inr r \<Rightarrow> Inr r)"

text \<open>The database after a call: the committed one, or the old one after an error.\<close>

definition db_after :: "store \<Rightarrow> error + ('a \<times> store) \<Rightarrow> store" where
  "db_after db r = (case r of Inl e \<Rightarrow> db | Inr (x, db') \<Rightarrow> db')"

subsection \<open>Writing permits\<close>

text \<open>A fresh primary key: the successor of the largest key of the table.\<close>

definition fresh_pk :: "nat option list \<Rightarrow> nat" where
  "fresh_pk pks = Suc (fold (\<lambda>k m. case k of None \<Rightarrow> m | Some n \<Rightarrow> max n m) pks 0)"

definition series_exists :: "store \<Rightarrow> nat \<Rightarrow> bool" where
  "series_exists db k = list_ex (\<lambda>s. series_pk s = Some k) (permit_series_rows db)"

text \<open>
  The constraints the database checks on a permit row: the foreign key to the series
  and the uniqueness of (series, external identifier). A violation is an
  \<^verbatim>\<open>IntegrityError\<close> (section 7 of the specification: a duplicate external
  identifier is rejected by validation, a reference to a series that does not exist by
  the storage).
\<close>

definition permit_constraints :: "store \<Rightarrow> Permit \<Rightarrow> bool" where
  "permit_constraints db self = (series_exists db (series self) \<and> unique_together db self)"

text \<open>
  \<^verbatim>\<open>super().save()\<close>, Django's \<^verbatim>\<open>Model.save\<close>: an instance without primary
  key is inserted under a fresh one; an instance with a primary key updates its row, or
  is inserted under that key when the table has no such row.
\<close>

definition model_save :: "Permit \<Rightarrow> Permit transaction" where
  "model_save self db =
     (if \<not> permit_constraints db self then Inl (IntegrityError, db)
      else case permit_pk self of
        None \<Rightarrow>
          (let self' = self\<lparr>permit_pk := Some (fresh_pk (map permit_pk (permit_rows db)))\<rparr>
           in Inr (self', db\<lparr>permit_rows := permit_rows db @ [self']\<rparr>))
      | Some k \<Rightarrow>
          if list_ex (\<lambda>p. permit_pk p = Some k) (permit_rows db)
          then Inr (self, db\<lparr>permit_rows :=
                 map (\<lambda>p. if permit_pk p = Some k then self else p) (permit_rows db)\<rparr>)
          else Inr (self, db\<lparr>permit_rows := permit_rows db @ [self]\<rparr>))"

text \<open>
  The block of \<^verbatim>\<open>Permit.save\<close>: write the permit, delete its cache rows, insert
  the rows that \<^verbatim>\<open>_make_cache_items\<close> yields.
\<close>

definition save_block :: "Permit \<Rightarrow> Permit transaction" where
  "save_block self db =
     (case model_save self db of
        Inl x \<Rightarrow> Inl x
      | Inr (self', db1) \<Rightarrow>
          (let db2 = db1\<lparr>cache_rows := filter (\<lambda>c. permit c \<noteq> permit_pk self') (cache_rows db1)\<rparr>;
               new_cache_items = make_cache_items self'
           in Inr (self', db2\<lparr>cache_rows := cache_rows db2 @ new_cache_items\<rparr>)))"

text \<open>\<^verbatim>\<open>Permit.save\<close>: \<^verbatim>\<open>full_clean\<close> first, then the atomic block.\<close>

definition save :: "store \<Rightarrow> Permit \<Rightarrow> error + (Permit \<times> store)" where
  "save db self =
     (case full_clean db self of
        Inl e \<Rightarrow> Inl e
      | Inr u \<Rightarrow> atomic (save_block self) db)"

text \<open>
  \<^verbatim>\<open>super().bulk_create(permits)\<close>: every permit is inserted, in order; the
  created permits carry their primary keys.
\<close>

definition insert_permit :: "Permit \<Rightarrow> Permit transaction" where
  "insert_permit self db =
     (if \<not> permit_constraints db self then Inl (IntegrityError, db)
      else case permit_pk self of
        None \<Rightarrow>
          (let self' = self\<lparr>permit_pk := Some (fresh_pk (map permit_pk (permit_rows db)))\<rparr>
           in Inr (self', db\<lparr>permit_rows := permit_rows db @ [self']\<rparr>))
      | Some k \<Rightarrow>
          if list_ex (\<lambda>p. permit_pk p = Some k) (permit_rows db)
          then Inl (IntegrityError, db)
          else Inr (self, db\<lparr>permit_rows := permit_rows db @ [self]\<rparr>))"

fun model_bulk_create :: "Permit list \<Rightarrow> Permit list transaction" where
  "model_bulk_create [] db = Inr ([], db)"
| "model_bulk_create (p # permits) db =
     (case insert_permit p db of
        Inl x \<Rightarrow> Inl x
      | Inr (p', db1) \<Rightarrow>
          (case model_bulk_create permits db1 of
             Inl x \<Rightarrow> Inl x
           | Inr (created, db2) \<Rightarrow> Inr (p' # created, db2)))"

text \<open>
  The loop of \<^verbatim>\<open>bulk_create\<close> over the created permits: \<^verbatim>\<open>full_clean\<close>
  each, and collect its cache items; the first failure leaves the loop.
\<close>

fun clean_and_make_cache_items :: "store \<Rightarrow> Permit list \<Rightarrow> error + PermitCacheItem list" where
  "clean_and_make_cache_items db [] = Inr []"
| "clean_and_make_cache_items db (p # created_permits) =
     (case full_clean db p of
        Inl e \<Rightarrow> Inl e
      | Inr u \<Rightarrow>
          (case clean_and_make_cache_items db created_permits of
             Inl e \<Rightarrow> Inl e
           | Inr cache_items \<Rightarrow> Inr (make_cache_items p @ cache_items)))"

definition bulk_create_block :: "Permit list \<Rightarrow> Permit list transaction" where
  "bulk_create_block permits db =
     (case model_bulk_create permits db of
        Inl x \<Rightarrow> Inl x
      | Inr (created_permits, db1) \<Rightarrow>
          (case clean_and_make_cache_items db1 created_permits of
             Inl e \<Rightarrow> Inl (e, db1)
           | Inr cache_items \<Rightarrow>
               Inr (created_permits, db1\<lparr>cache_rows := cache_rows db1 @ cache_items\<rparr>)))"

definition bulk_create :: "store \<Rightarrow> Permit list \<Rightarrow> error + (Permit list \<times> store)" where
  "bulk_create db permits = atomic (bulk_create_block permits) db"

text \<open>
  \<^verbatim>\<open>permit.delete()\<close>: the cache rows go with their permit
  (\<^verbatim>\<open>on_delete=models.CASCADE\<close>).
\<close>

definition delete_permit :: "nat \<Rightarrow> store \<Rightarrow> store" where
  "delete_permit k db =
     db\<lparr>permit_rows := filter (\<lambda>p. permit_pk p \<noteq> Some k) (permit_rows db),
        cache_rows := filter (\<lambda>c. permit c \<noteq> Some k) (cache_rows db)\<rparr>"

text \<open>\<^verbatim>\<open>self.cache_items.all()\<close>, and the rows as the tuples of their four data columns.\<close>

definition cache_items :: "store \<Rightarrow> nat option \<Rightarrow> PermitCacheItem list" where
  "cache_items db k = filter (\<lambda>c. permit c = k) (cache_rows db)"

definition cache_tuples :: "store \<Rightarrow> nat option \<Rightarrow> (string \<times> string \<times> timestamp \<times> timestamp) set" where
  "cache_tuples db k =
     set (map (\<lambda>c. (registration_number c, area_identifier c, start_time c, end_time c))
              (cache_items db k))"

subsection \<open>Permit series\<close>

text \<open>\<^verbatim>\<open>PermitSeriesQuerySet\<close>.\<close>

definition series_active :: "PermitSeries list \<Rightarrow> PermitSeries list" where
  "series_active self = filter (\<lambda>s. active s = True) self"

text \<open>
  \<^verbatim>\<open>order_by('-modified_at').first()\<close>: a row with the largest modification
  time, the earliest such row of the query set where several have it.
\<close>

fun first_by_modified_at_desc :: "PermitSeries list \<Rightarrow> PermitSeries option" where
  "first_by_modified_at_desc [] = None"
| "first_by_modified_at_desc (s # ss) =
     (case first_by_modified_at_desc ss of
        None \<Rightarrow> Some s
      | Some s' \<Rightarrow> if modified_at s' > modified_at s then Some s' else Some s)"

definition latest_active :: "PermitSeries list \<Rightarrow> PermitSeries option" where
  "latest_active self = first_by_modified_at_desc (series_active self)"

text \<open>
  \<^verbatim>\<open>prunable\<close>. \<^verbatim>\<open>now\<close> is the value of \<^verbatim>\<open>timezone.now()\<close> and
  \<^verbatim>\<open>prunable_after\<close> the setting \<^verbatim>\<open>PARKKIHUBI_PERMITS_PRUNABLE_AFTER\<close>, a
  duration; the settings module is not among the sources.
\<close>

definition prunable :: "timestamp \<Rightarrow> int \<Rightarrow> PermitSeries list \<Rightarrow> PermitSeries list" where
  "prunable now prunable_after self =
     (let limit = now - prunable_after
      in filter (\<lambda>s. created_at s < limit \<and> active s = False) self)"

text \<open>
  Modelled from the spec: \<^verbatim>\<open>TimestampedModelMixin\<close> (\<^verbatim>\<open>parkings/models/mixins.py\<close>)
  is not among the sources; section 3 of the specification gives a series its creation
  and modification timestamps. Saving a series instance: an insert sets both, an update
  sets the modification time and keeps the creation time the instance carries (the test
  \<^verbatim>\<open>test_old_series_are_pruned\<close> assigns it before saving).
\<close>

definition series_save :: "timestamp \<Rightarrow> PermitSeries \<Rightarrow> store \<Rightarrow> PermitSeries \<times> store" where
  "series_save now self db =
     (let rows = permit_series_rows db
      in if series_pk self \<noteq> None \<and> list_ex (\<lambda>s. series_pk s = series_pk self) rows
         then (let self' = self\<lparr>modified_at := now\<rparr>
               in (self', db\<lparr>permit_series_rows :=
                            map (\<lambda>s. if series_pk s = series_pk self then self' else s) rows\<rparr>))
         else (let k = (case series_pk self of
                          None \<Rightarrow> fresh_pk (map series_pk rows) | Some k' \<Rightarrow> k');
                   self' = self\<lparr>series_pk := Some k, created_at := now, modified_at := now\<rparr>
               in (self', db\<lparr>permit_series_rows := rows @ [self']\<rparr>)))"

text \<open>\<^verbatim>\<open>PermitSeries.objects.create(active=...)\<close>; the flag defaults to false.\<close>

definition create_series :: "timestamp \<Rightarrow> bool \<Rightarrow> store \<Rightarrow> PermitSeries \<times> store" where
  "create_series now flag db =
     series_save now \<lparr>series_pk = None, created_at = now, modified_at = now, active = flag\<rparr> db"

text \<open>
  Modelled from the spec: the activation of a series is implemented by the enforcement
  API (\<^verbatim>\<open>parkings/api/enforcement\<close>), which is not among the sources; only its
  tests are. Section 4.4 of the specification: \<^verbatim>\<open>activate(series)\<close> sets this
  series' flag true and every other series' flag false, in one transaction.
\<close>

definition activate :: "nat \<Rightarrow> unit transaction" where
  "activate k db =
     (if \<not> series_exists db k then Inl (DoesNotExist, db)
      else Inr ((), db\<lparr>permit_series_rows :=
                     map (\<lambda>s. s\<lparr>active := (series_pk s = Some k)\<rparr>) (permit_series_rows db)\<rparr>))"

text \<open>
  Modelled from the spec: the sweep is not among the sources either. Section 4.4:
  \<^verbatim>\<open>prune()\<close> hard-deletes every inactive series created before
  \<^verbatim>\<open>now - retention_window\<close>, which is the query set \<^verbatim>\<open>prunable\<close>; a
  series that permits still reference is delete-protected
  (\<^verbatim>\<open>on_delete=models.PROTECT\<close> at \<^verbatim>\<open>Permit.series\<close>), and section 9 leaves
  such a sweep to the rejection by the storage. The result is the number of deleted rows.
\<close>

definition prune :: "timestamp \<Rightarrow> int \<Rightarrow> nat transaction" where
  "prune now prunable_after db =
     (let doomed = prunable now prunable_after (permit_series_rows db)
      in if list_ex (\<lambda>p. list_ex (\<lambda>s. series_pk s = Some (series p)) doomed) (permit_rows db)
         then Inl (IntegrityError, db)
         else Inr (length doomed,
                   db\<lparr>permit_series_rows :=
                        filter (\<lambda>s. s \<notin> set doomed) (permit_series_rows db)\<rparr>))"

text \<open>
  Modelled from the spec: the endpoint \<^verbatim>\<open>POST .../activate/\<close> that the tests call
  is not among the sources. It is composed of the two operations of section 4.4. That it
  sweeps after activating, in the same call, is what its tests, which are among the
  sources, observe: after the call the posted series is the latest active one and the
  series that was active is not (\<^verbatim>\<open>test_series_get_activated\<close>), and of two
  series, one of them inactive and three days old, one is left
  (\<^verbatim>\<open>test_old_series_are_pruned\<close>).
\<close>

definition activate_block :: "timestamp \<Rightarrow> int \<Rightarrow> nat \<Rightarrow> nat transaction" where
  "activate_block now prunable_after k db =
     (case activate k db of
        Inl x \<Rightarrow> Inl x
      | Inr (u, db1) \<Rightarrow> prune now prunable_after db1)"

definition activate_endpoint :: "timestamp \<Rightarrow> int \<Rightarrow> nat \<Rightarrow> store \<Rightarrow> error + (nat \<times> store)" where
  "activate_endpoint now prunable_after k db = atomic (activate_block now prunable_after k) db"

subsection \<open>The tests of the activation endpoint\<close>

text \<open>
  The two tests of \<^verbatim>\<open>test_activate_permit_series.py\<close>, as predicates of the
  endpoint under test (a function of the time of the call, the primary key in the URL and
  the database). The tests start on an empty database; \<^verbatim>\<open>t1\<close>, \<^verbatim>\<open>t2\<close>, ...
  are the successive readings of the clock. Status 200 is the result \<^verbatim>\<open>Inr\<close>.
\<close>

definition days :: "int \<Rightarrow> int" where
  "days n = n * 86400000000"

definition test_series_get_activated ::
    "(timestamp \<Rightarrow> nat \<Rightarrow> store \<Rightarrow> error + (nat \<times> store)) \<Rightarrow> timestamp \<Rightarrow> timestamp \<Rightarrow> timestamp \<Rightarrow> bool" where
  "test_series_get_activated endpoint t1 t2 t3 =
     (let (new_permit_series, db1) = create_series t1 False empty_store;
          (old_permit_series, db2) = create_series t2 True db1
      in case series_pk new_permit_series of
           None \<Rightarrow> False
         | Some k \<Rightarrow>
             (case endpoint t3 k db2 of
                Inl e \<Rightarrow> False
              | Inr (n, db3) \<Rightarrow>
                  map_option series_pk (latest_active (permit_series_rows db3)) = Some (Some k)
                  \<and> (case find (\<lambda>s. series_pk s = series_pk old_permit_series)
                               (permit_series_rows db3) of
                        None \<Rightarrow> False
                      | Some s \<Rightarrow> \<not> active s)))"

definition test_old_series_are_pruned ::
    "(timestamp \<Rightarrow> nat \<Rightarrow> store \<Rightarrow> error + (nat \<times> store)) \<Rightarrow> timestamp \<Rightarrow> timestamp \<Rightarrow> timestamp \<Rightarrow> timestamp \<Rightarrow> timestamp \<Rightarrow> bool" where
  "test_old_series_are_pruned endpoint t1 t2 t3 t4 t5 =
     (let (new_permit_series, db1) = create_series t1 False empty_store;
          (old_permit_series, db2) = create_series t2 False db1;
          (old_saved, db3) = series_save t4 (old_permit_series\<lparr>created_at := t3 - days 3\<rparr>) db2
      in length (permit_series_rows db3) = 2
         \<and> (case series_pk new_permit_series of
               None \<Rightarrow> False
             | Some k \<Rightarrow>
                 (case endpoint t5 k db3 of
                    Inl e \<Rightarrow> False
                  | Inr (n, db4) \<Rightarrow> length (permit_series_rows db4) = 1)))"

subsection \<open>The databases the operations can produce\<close>

text \<open>
  A database is reachable when the operations above lead to it from the empty one. An
  operation that raises leaves the database as it was, so only successful calls appear.
\<close>

inductive reachable :: "store \<Rightarrow> bool" where
  initial: "reachable empty_store"
| series_saved: "reachable db \<Longrightarrow> series_save now s db = (s', db') \<Longrightarrow> reachable db'"
| activated: "reachable db \<Longrightarrow> activate_endpoint now prunable_after k db = Inr (n, db')
               \<Longrightarrow> reachable db'"
| pruned: "reachable db \<Longrightarrow> atomic (prune now prunable_after) db = Inr (n, db')
               \<Longrightarrow> reachable db'"
| saved: "reachable db \<Longrightarrow> save db p = Inr (p', db') \<Longrightarrow> reachable db'"
| bulk_created: "reachable db \<Longrightarrow> bulk_create db permits = Inr (created, db')
               \<Longrightarrow> reachable db'"
| permit_deleted: "reachable db \<Longrightarrow> reachable (delete_permit k db)"

subsection \<open>Sample data\<close>

text \<open>
  The data of the scenarios of the specification (section 8), with days as time unit:
  a series, a permit for "ABC-123" from day 0 to day 10 in area "A1" from day 5 to day
  15, its database after the save, the same with a second cache row for the permit, a
  permit whose intervals only touch, a permit whose registration number is longer than
  its schema allows, and a permit without subjects.
\<close>

definition sample_series :: PermitSeries where
  "sample_series = \<lparr>series_pk = Some 1, created_at = 0, modified_at = 0, active = True\<rparr>"

definition sample_db :: store where
  "sample_db = \<lparr>permit_series_rows = [sample_series], permit_rows = [], cache_rows = []\<rparr>"

definition sample_permit :: Permit where
  "sample_permit =
     \<lparr>permit_pk = None, series = 1, external_id = None,
      subjects = [\<lparr>subject_start_time = 0, subject_end_time = 10,
                   subject_registration_number = ''ABC-123''\<rparr>],
      areas = [\<lparr>area_start_time = 5, area_end_time = 15, area = ''A1''\<rparr>]\<rparr>"

definition sample_row :: PermitCacheItem where
  "sample_row =
     \<lparr>permit = Some 1, registration_number = ''ABC123'', area_identifier = ''A1'',
      start_time = 5, end_time = 10\<rparr>"

definition saved_db :: store where
  "saved_db = \<lparr>permit_series_rows = [sample_series],
               permit_rows = [sample_permit\<lparr>permit_pk := Some 1\<rparr>],
               cache_rows = [sample_row]\<rparr>"

definition double_db :: store where
  "double_db = saved_db\<lparr>cache_rows :=
                 [sample_row, sample_row\<lparr>area_identifier := ''A2'', start_time := 8\<rparr>]\<rparr>"

definition touching_permit :: Permit where
  "touching_permit =
     \<lparr>permit_pk = None, series = 1, external_id = None,
      subjects = [\<lparr>subject_start_time = 0, subject_end_time = 10,
                   subject_registration_number = ''X''\<rparr>],
      areas = [\<lparr>area_start_time = 10, area_end_time = 20, area = ''A''\<rparr>]\<rparr>"

definition invalid_permit :: Permit where
  "invalid_permit =
     \<lparr>permit_pk = None, series = 1, external_id = None,
      subjects = [\<lparr>subject_start_time = 0, subject_end_time = 10,
                   subject_registration_number = ''ABCDEFGHIJKLMNOPQRSTU''\<rparr>],
      areas = [\<lparr>area_start_time = 5, area_end_time = 15, area = ''A1''\<rparr>]\<rparr>"

definition blank_permit :: Permit where
  "blank_permit =
     \<lparr>permit_pk = None, series = 1, external_id = None,
      subjects = [],
      areas = [\<lparr>area_start_time = 5, area_end_time = 15, area = ''A1''\<rparr>]\<rparr>"

text \<open>
  Series for the scenarios of the lifecycle: two series created with the flag set; a
  series created active on day 0 and saved with the flag cleared on day 100; and the
  database of \<^verbatim>\<open>test_old_series_are_pruned\<close> just before its call of the
  endpoint, with the clock read at 0, 1, 2, 3 (and 4 at the call).
\<close>

definition two_active_db :: store where
  "two_active_db =
     \<lparr>permit_series_rows =
        [sample_series, \<lparr>series_pk = Some 2, created_at = 1, modified_at = 1, active = True\<rparr>],
      permit_rows = [], cache_rows = []\<rparr>"

definition deactivated_series :: PermitSeries where
  "deactivated_series =
     \<lparr>series_pk = Some 1, created_at = 0, modified_at = days 100, active = False\<rparr>"

definition deactivated_db :: store where
  "deactivated_db = \<lparr>permit_series_rows = [deactivated_series], permit_rows = [], cache_rows = []\<rparr>"

definition new_series :: PermitSeries where
  "new_series = \<lparr>series_pk = Some 1, created_at = 0, modified_at = 0, active = False\<rparr>"

definition old_series :: PermitSeries where
  "old_series = \<lparr>series_pk = Some 2, created_at = 2 - days 3, modified_at = 3, active = False\<rparr>"

definition test_db :: store where
  "test_db = \<lparr>permit_series_rows = [new_series, old_series], permit_rows = [], cache_rows = []\<rparr>"

text \<open>
  The database of \<^verbatim>\<open>test_series_get_activated\<close> just before its call of the
  endpoint (clock read at 0 and 1), and the one of scenario 8 of the specification: an
  active series, and an inactive one created on day 1, swept on day 5.
\<close>

definition active_series :: PermitSeries where
  "active_series = \<lparr>series_pk = Some 2, created_at = 1, modified_at = 1, active = True\<rparr>"

definition get_activated_db :: store where
  "get_activated_db =
     \<lparr>permit_series_rows = [new_series, active_series], permit_rows = [], cache_rows = []\<rparr>"

definition inactive_series :: PermitSeries where
  "inactive_series =
     \<lparr>series_pk = Some 2, created_at = days 1, modified_at = days 1, active = False\<rparr>"

definition lifecycle_db :: store where
  "lifecycle_db =
     \<lparr>permit_series_rows = [sample_series, inactive_series], permit_rows = [], cache_rows = []\<rparr>"

subsection \<open>The sweep's criterion as claimed\<close>

text \<open>
  The criterion of claim C6 in its own words, to compare with \<^verbatim>\<open>prunable\<close>: the
  series is inactive and has spent more than the retention window in the inactive state.
  \<^verbatim>\<open>inactive_since\<close> is the time at which the series became inactive; no column
  of the row records it.
\<close>

definition inactive_longer_than :: "timestamp \<Rightarrow> int \<Rightarrow> timestamp \<Rightarrow> PermitSeries \<Rightarrow> bool" where
  "inactive_longer_than now retention inactive_since s =
     (active s = False \<and> now - inactive_since > retention)"

text \<open>
  The activation of section 4.4 alone, without a sweep, as an endpoint for the tests; it
  reports no deleted row.
\<close>

definition activate_without_sweep :: "timestamp \<Rightarrow> nat \<Rightarrow> store \<Rightarrow> error + (nat \<times> store)" where
  "activate_without_sweep now k db =
     atomic (\<lambda>db. case activate k db of Inl x \<Rightarrow> Inl x | Inr (u, db1) \<Rightarrow> Inr (0, db1)) db"

section \<open>Properties\<close>

subsection \<open>The cache builder\<close>

lemma in_make_cache_item:
  "c \<in> set (make_cache_item P a sub) \<longleftrightarrow>
     max (subject_start_time sub) (area_start_time a) < min (subject_end_time sub) (area_end_time a)
     \<and> c = \<lparr>permit = permit_pk P,
            registration_number = normalize_reg_num (subject_registration_number sub),
            area_identifier = area a,
            start_time = max (subject_start_time sub) (area_start_time a),
            end_time = min (subject_end_time sub) (area_end_time a)\<rparr>"
  unfolding make_cache_item_def Let_def
  by (cases "min (subject_end_time sub) (area_end_time a)
               \<le> max (subject_start_time sub) (area_start_time a)")
     (simp_all only: if_True if_False list.set empty_iff insert_iff not_le not_less simp_thms, auto)

lemma in_make_cache_items:
  "c \<in> set (make_cache_items P) \<longleftrightarrow>
     (\<exists>sub a. sub \<in> set (subjects P) \<and> a \<in> set (areas P)
        \<and> max (subject_start_time sub) (area_start_time a)
            < min (subject_end_time sub) (area_end_time a)
        \<and> c = \<lparr>permit = permit_pk P,
               registration_number = normalize_reg_num (subject_registration_number sub),
               area_identifier = area a,
               start_time = max (subject_start_time sub) (area_start_time a),
               end_time = min (subject_end_time sub) (area_end_time a)\<rparr>)"
proof -
  have "c \<in> set (make_cache_items P) \<longleftrightarrow>
        (\<exists>a \<in> set (areas P). \<exists>sub \<in> set (subjects P). c \<in> set (make_cache_item P a sub))"
    unfolding make_cache_items_def by simp
  then show ?thesis unfolding in_make_cache_item by blast
qed

text \<open>
  C1. The rows that \<^verbatim>\<open>_make_cache_items\<close> yields for a permit are exactly the
  non-empty intersections over subjects and areas: the pair (subject, area) contributes
  the row with the subject's normalized registration number, the area's identifier,
  start = max of the two starts and end = min of the two ends if and only if that start
  is strictly before that end; a pair with start at or after end, touching intervals
  included, contributes nothing.
\<close>

theorem C1_cache_rows_are_the_nonempty_intersections:
  "set (make_cache_items P) =
     {\<lparr>permit = permit_pk P,
       registration_number = normalize_reg_num (subject_registration_number sub),
       area_identifier = area a,
       start_time = max (subject_start_time sub) (area_start_time a),
       end_time = min (subject_end_time sub) (area_end_time a)\<rparr> | sub a.
      sub \<in> set (subjects P) \<and> a \<in> set (areas P)
        \<and> max (subject_start_time sub) (area_start_time a)
            < min (subject_end_time sub) (area_end_time a)}"
  by (rule set_eqI, unfold in_make_cache_items mem_Collect_eq, blast)

text \<open>
  C1 on scenarios 6 and 7 of the specification: "ABC-123" from day 0 to day 10 in "A1"
  from day 5 to day 15 gives the one row ("ABC123", "A1", 5, 10); intervals that touch
  at day 10 give none.
\<close>

theorem C1_witness:
  "set (make_cache_items (sample_permit\<lparr>permit_pk := Some 1\<rparr>)) = {sample_row}
   \<and> make_cache_items touching_permit = []"
proof -
  have n: "normalize_reg_num ''ABC-123'' = ''ABC123''" by code_simp
  have "set (make_cache_items (sample_permit\<lparr>permit_pk := Some 1\<rparr>)) = {sample_row}"
    unfolding C1_cache_rows_are_the_nonempty_intersections
    by (auto simp: sample_permit_def sample_row_def n)
  moreover have "set (make_cache_items touching_permit) = {}"
    unfolding C1_cache_rows_are_the_nonempty_intersections
    by (simp add: touching_permit_def)
  ultimately show ?thesis by simp
qed

subsection \<open>Queries\<close>

lemma in_filter_cache_items_in:
  "p \<in> set (filter_cache_items_in db self items) \<longleftrightarrow>
     p \<in> set self \<and> (\<exists>c \<in> set (cache_rows db). permit c = permit_pk p \<and> c \<in> set items)"
  unfolding filter_cache_items_in_def by auto

lemma count_list_remdups_le: "count_list (remdups xs) x \<le> 1"
  by (induction xs) auto

text \<open>
  C2. \<^verbatim>\<open>by_time(t)\<close> on a query set of permits returns exactly its permits that
  own at least one cache row with \<^verbatim>\<open>start_time <= t <= end_time\<close> (both bounds
  inclusive), and no permit more than once, however many of its rows contain
  \<^verbatim>\<open>t\<close>.
\<close>

theorem C2_by_time_matches_once:
  "(p \<in> set (by_time db self t) \<longleftrightarrow>
      p \<in> set self
      \<and> (\<exists>c \<in> set (cache_rows db). permit c = permit_pk p \<and> start_time c \<le> t \<and> t \<le> end_time c))
   \<and> distinct (by_time db self t)
   \<and> count_list (by_time db self t) p \<le> 1"
proof -
  have "p \<in> set (by_time db self t) \<longleftrightarrow>
      p \<in> set self
      \<and> (\<exists>c \<in> set (cache_rows db). permit c = permit_pk p \<and> start_time c \<le> t \<and> t \<le> end_time c)"
    unfolding by_time_def Let_def cache_by_time_def
    by (auto simp: in_filter_cache_items_in)
  moreover have "distinct (by_time db self t)"
    unfolding by_time_def Let_def by simp
  moreover have "count_list (by_time db self t) p \<le> 1"
    unfolding by_time_def Let_def by (rule count_list_remdups_le)
  ultimately show ?thesis by blast
qed

text \<open>
  C2 on the sample data: the permit owns two cache rows, from day 5 to day 10 and from
  day 8 to day 10. It is returned once on day 9 (both rows), once on day 10 (the end is
  included) and on day 5 (the start is included), and not on day 11.
\<close>

theorem C2_witness:
  "by_time double_db (permit_rows double_db) 9 = [sample_permit\<lparr>permit_pk := Some 1\<rparr>]
   \<and> length (cache_by_time (cache_rows double_db) 9) = 2
   \<and> sample_permit\<lparr>permit_pk := Some 1\<rparr> \<in> set (by_time double_db (permit_rows double_db) 10)
   \<and> sample_permit\<lparr>permit_pk := Some 1\<rparr> \<in> set (by_time double_db (permit_rows double_db) 5)
   \<and> sample_permit\<lparr>permit_pk := Some 1\<rparr> \<notin> set (by_time double_db (permit_rows double_db) 11)"
proof -
  have r: "permit_rows double_db = [sample_permit\<lparr>permit_pk := Some 1\<rparr>]" by code_simp
  have c: "cache_rows double_db =
             [sample_row, sample_row\<lparr>area_identifier := ''A2'', start_time := 8\<rparr>]" by code_simp
  have k: "permit sample_row = permit_pk (sample_permit\<lparr>permit_pk := Some 1\<rparr>)"
    by (simp add: sample_row_def)
  have i: "start_time sample_row = 5 \<and> end_time sample_row = 10" by (simp add: sample_row_def)
  have n: "by_time double_db (permit_rows double_db) 9 = [sample_permit\<lparr>permit_pk := Some 1\<rparr>]"
    by code_simp
  have l: "length (cache_by_time (cache_rows double_db) 9) = 2" by code_simp
  note t = C2_by_time_matches_once[of "sample_permit\<lparr>permit_pk := Some 1\<rparr>" double_db
              "permit_rows double_db"]
  from t[of 10] have "sample_permit\<lparr>permit_pk := Some 1\<rparr> \<in> set (by_time double_db (permit_rows double_db) 10)"
    unfolding r c using k i by simp
  moreover from t[of 5] have "sample_permit\<lparr>permit_pk := Some 1\<rparr> \<in> set (by_time double_db (permit_rows double_db) 5)"
    unfolding r c using k i by simp
  moreover from t[of 11] have "sample_permit\<lparr>permit_pk := Some 1\<rparr> \<notin> set (by_time double_db (permit_rows double_db) 11)"
    unfolding r c using k i by simp
  ultimately show ?thesis using n l by simp
qed

lemma is_formatting_upper_char: "is_formatting (upper_char c) = is_formatting c"
  unfolding is_formatting_def upper_char_def Let_def by auto

lemma normalize_reg_num_alt:
  "normalize_reg_num r = filter (\<lambda>c. \<not> is_formatting c) (map upper_char r)"
  unfolding normalize_reg_num_def filter_map by (simp add: comp_def is_formatting_upper_char)

lemma normalize_reg_num_case:
  "map upper_char r = map upper_char r' \<Longrightarrow> normalize_reg_num r = normalize_reg_num r'"
  unfolding normalize_reg_num_alt by simp

lemma normalize_reg_num_formatting:
  "is_formatting c \<Longrightarrow> normalize_reg_num (xs @ c # ys) = normalize_reg_num (xs @ ys)"
  unfolding normalize_reg_num_def by simp

lemma normalize_examples:
  "normalize_reg_num ''ABC 123'' = ''ABC123''"
  "normalize_reg_num ''abc-123'' = ''ABC123''"
  "normalize_reg_num ''ABC123'' = ''ABC123''"
  by code_simp+

text \<open>
  C3. \<^verbatim>\<open>by_subject(r)\<close> normalizes \<^verbatim>\<open>r\<close> and returns exactly the permits
  of the query set that own a cache row whose stored registration number is the
  normalized \<^verbatim>\<open>r\<close>, each once. Hence two strings with the same normal form give
  the same result: strings that differ in the case of their letters, strings that differ
  by a white-space or punctuation character, and in particular "ABC 123", "abc-123" and
  "ABC123". The cache builder stores the normal form of the subject's registration
  number, computed by the same function.
\<close>

theorem C3_by_subject_matches_normalized:
  "(p \<in> set (by_subject db self r) \<longleftrightarrow>
      p \<in> set self
      \<and> (\<exists>c \<in> set (cache_rows db). permit c = permit_pk p
            \<and> registration_number c = normalize_reg_num r))
   \<and> distinct (by_subject db self r)
   \<and> (normalize_reg_num r = normalize_reg_num r' \<longrightarrow> by_subject db self r = by_subject db self r')
   \<and> (map upper_char r = map upper_char r' \<longrightarrow> by_subject db self r = by_subject db self r')
   \<and> (is_formatting x \<longrightarrow> by_subject db self (xs @ x # ys) = by_subject db self (xs @ ys))
   \<and> by_subject db self ''ABC 123'' = by_subject db self ''ABC123''
   \<and> by_subject db self ''abc-123'' = by_subject db self ''ABC123''
   \<and> (\<forall>c \<in> set (make_cache_items P). \<exists>sub \<in> set (subjects P).
         registration_number c = normalize_reg_num (subject_registration_number sub))"
proof -
  have a: "p \<in> set (by_subject db self r) \<longleftrightarrow>
      p \<in> set self
      \<and> (\<exists>c \<in> set (cache_rows db). permit c = permit_pk p
            \<and> registration_number c = normalize_reg_num r)"
    unfolding by_subject_def Let_def by_registration_number_def
    by (auto simp: in_filter_cache_items_in)
  have b: "distinct (by_subject db self r)" unfolding by_subject_def Let_def by simp
  have c: "normalize_reg_num u = normalize_reg_num v \<longrightarrow> by_subject db self u = by_subject db self v"
    for u v unfolding by_subject_def by simp
  have c1: "map upper_char r = map upper_char r' \<longrightarrow> by_subject db self r = by_subject db self r'"
    using c normalize_reg_num_case by blast
  have c2: "is_formatting x \<longrightarrow> by_subject db self (xs @ x # ys) = by_subject db self (xs @ ys)"
    using c normalize_reg_num_formatting by blast
  have d: "by_subject db self ''ABC 123'' = by_subject db self ''ABC123''"
    using c normalize_examples by simp
  have e: "by_subject db self ''abc-123'' = by_subject db self ''ABC123''"
    using c normalize_examples by simp
  have f: "\<forall>c \<in> set (make_cache_items P). \<exists>sub \<in> set (subjects P).
         registration_number c = normalize_reg_num (subject_registration_number sub)"
  proof
    fix c assume "c \<in> set (make_cache_items P)"
    then obtain sub where "sub \<in> set (subjects P)"
      and "registration_number c = normalize_reg_num (subject_registration_number sub)"
      unfolding in_make_cache_items by auto
    then show "\<exists>sub \<in> set (subjects P).
         registration_number c = normalize_reg_num (subject_registration_number sub)"
      by (rule_tac x = sub in bexI)
  qed
  from a b c[of r r'] c1 c2 d e f show ?thesis by blast
qed

text \<open>
  C3 on the sample data: the permit saved for "ABC-123" is found under "abc-123",
  "ABC 123" and "abc123", and not under "ABC124".
\<close>

theorem C3_witness:
  "normalize_reg_num ''abc-123'' = normalize_reg_num ''ABC 123''
   \<and> map upper_char ''abc123'' = map upper_char ''ABC123''
   \<and> is_formatting CHR ''-''
   \<and> make_cache_items (sample_permit\<lparr>permit_pk := Some 1\<rparr>) = [sample_row]
   \<and> registration_number sample_row = normalize_reg_num ''ABC-123''
   \<and> by_subject saved_db (permit_rows saved_db) ''abc-123'' = [sample_permit\<lparr>permit_pk := Some 1\<rparr>]
   \<and> by_subject saved_db (permit_rows saved_db) ''ABC 123'' = [sample_permit\<lparr>permit_pk := Some 1\<rparr>]
   \<and> by_subject saved_db (permit_rows saved_db) ''abc123'' = [sample_permit\<lparr>permit_pk := Some 1\<rparr>]
   \<and> by_subject saved_db (permit_rows saved_db) ''ABC-123'' = [sample_permit\<lparr>permit_pk := Some 1\<rparr>]
   \<and> by_subject saved_db (permit_rows saved_db) ''ABC124'' = []"
proof -
  have h1: "normalize_reg_num ''abc-123'' = normalize_reg_num ''ABC 123''" by code_simp
  have h2: "map upper_char ''abc123'' = map upper_char ''ABC123''" by code_simp
  have h3: "is_formatting CHR ''-''" by code_simp
  have m: "make_cache_items (sample_permit\<lparr>permit_pk := Some 1\<rparr>) = [sample_row]" by code_simp
  have g: "registration_number sample_row = normalize_reg_num ''ABC-123''" by code_simp
  have q: "by_subject saved_db (permit_rows saved_db) ''ABC123'' = [sample_permit\<lparr>permit_pk := Some 1\<rparr>]"
    by code_simp
  have n: "by_subject saved_db (permit_rows saved_db) ''ABC124'' = []" by code_simp
  note t = C3_by_subject_matches_normalized[of _ saved_db "permit_rows saved_db"]
  from t[of _ "''abc-123''" "''ABC 123''"] h1
  have e1: "by_subject saved_db (permit_rows saved_db) ''abc-123''
          = by_subject saved_db (permit_rows saved_db) ''ABC 123''" by blast
  from t[of _ "''abc123''" "''ABC123''"] h2
  have e2: "by_subject saved_db (permit_rows saved_db) ''abc123''
          = by_subject saved_db (permit_rows saved_db) ''ABC123''" by blast
  from t[of _ "''ABC123''" "''ABC123''"]
  have e3: "by_subject saved_db (permit_rows saved_db) ''ABC 123''
          = by_subject saved_db (permit_rows saved_db) ''ABC123''" by blast
  from t[of _ _ _ "CHR ''-''" "''ABC''" "''123''"]
  have "is_formatting CHR ''-'' \<longrightarrow>
          by_subject saved_db (permit_rows saved_db) (''ABC'' @ CHR ''-'' # ''123'')
          = by_subject saved_db (permit_rows saved_db) (''ABC'' @ ''123'')" by blast
  with h3 have e4: "by_subject saved_db (permit_rows saved_db) ''ABC-123''
          = by_subject saved_db (permit_rows saved_db) ''ABC123''" by simp
  from h1 h2 h3 m g q n e1 e2 e3 e4 show ?thesis by simp
qed

subsection \<open>Writing permits\<close>

lemma permit_make_cache_items:
  "c \<in> set (make_cache_items P) \<Longrightarrow> permit c = permit_pk P"
  unfolding in_make_cache_items by auto

lemma interval_make_cache_items:
  "c \<in> set (make_cache_items P) \<Longrightarrow> start_time c < end_time c"
  unfolding in_make_cache_items by auto

lemma make_cache_items_depends:
  assumes "permit_pk P = permit_pk Q" and "subjects P = subjects Q" and "areas P = areas Q"
  shows "make_cache_items P = make_cache_items Q"
proof -
  have "make_cache_item P = make_cache_item Q"
    by (intro ext) (simp only: make_cache_item_def assms(1))
  then show ?thesis unfolding make_cache_items_def assms(2,3) by (simp only:)
qed

lemma model_save_Inr:
  assumes "model_save self db = Inr (self', db1)"
  shows "cache_rows db1 = cache_rows db"
    and "permit_series_rows db1 = permit_series_rows db"
    and "subjects self' = subjects self"
    and "areas self' = areas self"
    and "permit_pk self' \<noteq> None"
    and "permit_pk self \<noteq> None \<Longrightarrow> self' = self"
    and "permit_constraints db self"
  using assms unfolding model_save_def Let_def
  by (auto split: if_splits option.splits)

lemma model_save_Inl:
  "model_save self db = Inl (e, dirty) \<Longrightarrow> dirty = db \<and> e = IntegrityError"
  unfolding model_save_def Let_def
  by (auto split: if_splits option.splits)

lemma model_save_succeeds:
  "permit_constraints db self \<Longrightarrow> \<exists>self' db1. model_save self db = Inr (self', db1)"
  unfolding model_save_def Let_def
  by (auto split: if_splits option.splits)

lemma save_block_Inr:
  assumes "save_block self db = Inr (self', db')"
  shows "cache_rows db' =
           filter (\<lambda>c. permit c \<noteq> permit_pk self') (cache_rows db) @ make_cache_items self'"
    and "permit_series_rows db' = permit_series_rows db"
    and "subjects self' = subjects self"
    and "areas self' = areas self"
    and "permit_pk self' \<noteq> None"
    and "permit_pk self \<noteq> None \<Longrightarrow> self' = self"
proof -
  from assms obtain db1 where ms: "model_save self db = Inr (self', db1)"
    and db': "db' = db1\<lparr>cache_rows :=
        filter (\<lambda>c. permit c \<noteq> permit_pk self') (cache_rows db1) @ make_cache_items self'\<rparr>"
    unfolding save_block_def Let_def by (auto split: sum.splits)
  note f = model_save_Inr[OF ms]
  show "cache_rows db' =
           filter (\<lambda>c. permit c \<noteq> permit_pk self') (cache_rows db) @ make_cache_items self'"
    using db' f(1) by simp
  show "permit_series_rows db' = permit_series_rows db" using db' f(2) by simp
  show "subjects self' = subjects self" by (rule f(3))
  show "areas self' = areas self" by (rule f(4))
  show "permit_pk self' \<noteq> None" by (rule f(5))
  show "permit_pk self \<noteq> None \<Longrightarrow> self' = self" by (rule f(6))
qed

lemma save_Inr:
  assumes "save db self = Inr (self', db')"
  shows "save_block self db = Inr (self', db')" and "full_clean db self = Inr ()"
  using assms unfolding save_def atomic_def
  by (auto split: sum.splits prod.splits)

lemma cache_items_after_save:
  assumes "save db self = Inr (self', db')"
  shows "cache_items db' (permit_pk self') = make_cache_items self'"
proof -
  note b = save_block_Inr[OF save_Inr(1)[OF assms]]
  have "filter (\<lambda>c. permit c = permit_pk self') (make_cache_items self') = make_cache_items self'"
    by (rule filter_True) (simp add: permit_make_cache_items)
  then show ?thesis unfolding cache_items_def b(1) by simp
qed

lemma save_succeeds:
  assumes "full_clean db self = Inr ()" and "permit_constraints db self"
  shows "\<exists>self' db'. save db self = Inr (self', db')"
proof -
  from model_save_succeeds[OF assms(2)] obtain self' db1
    where "model_save self db = Inr (self', db1)" by blast
  then show ?thesis using assms(1)
    unfolding save_def atomic_def save_block_def Let_def by simp
qed


lemma full_clean_invalid:
  "\<not> subjects_validator (subjects p) \<or> \<not> areas_validator (areas p)
     \<Longrightarrow> full_clean db p = Inl ValidationError"
  unfolding full_clean_def by auto

lemma full_clean_error: "full_clean db p = Inl e \<Longrightarrow> e = ValidationError"
  unfolding full_clean_def by (auto split: if_splits)

lemma insert_permit_Inr:
  assumes "insert_permit p db = Inr (p', db1)"
  shows "cache_rows db1 = cache_rows db"
    and "permit_series_rows db1 = permit_series_rows db"
    and "subjects p' = subjects p"
    and "areas p' = areas p"
  using assms unfolding insert_permit_def Let_def
  by (auto split: if_splits option.splits)

lemma model_bulk_create_Inr:
  "model_bulk_create permits db = Inr (created, db1) \<Longrightarrow>
     cache_rows db1 = cache_rows db
     \<and> permit_series_rows db1 = permit_series_rows db
     \<and> map subjects created = map subjects permits
     \<and> map areas created = map areas permits"
proof (induction permits arbitrary: db created db1)
  case Nil
  then show ?case by simp
next
  case (Cons p permits)
  from Cons.prems obtain p' dba created' where
    i: "insert_permit p db = Inr (p', dba)" and
    r: "model_bulk_create permits dba = Inr (created', db1)" and
    c: "created = p' # created'"
    by (auto split: sum.splits prod.splits)
  from Cons.IH[OF r] insert_permit_Inr[OF i] c show ?case by simp
qed

lemma clean_and_make_invalid:
  "\<exists>p \<in> set created. \<not> subjects_validator (subjects p) \<or> \<not> areas_validator (areas p)
     \<Longrightarrow> clean_and_make_cache_items db created = Inl ValidationError"
proof (induction created)
  case Nil
  then show ?case by simp
next
  case (Cons p created)
  show ?case
  proof (cases "full_clean db p")
    case (Inl e)
    then show ?thesis using full_clean_error[OF Inl] by simp
  next
    case (Inr u)
    then have "\<not> (\<not> subjects_validator (subjects p) \<or> \<not> areas_validator (areas p))"
      using full_clean_invalid[of p db] by auto
    with Cons.prems have "\<exists>p \<in> set created. \<not> subjects_validator (subjects p) \<or> \<not> areas_validator (areas p)"
      by auto
    from Cons.IH[OF this] Inr show ?thesis by simp
  qed
qed

lemma clean_and_make_Inr:
  "clean_and_make_cache_items db created = Inr items \<Longrightarrow>
     items = concat (map make_cache_items created)
     \<and> (\<forall>p \<in> set created. full_clean db p = Inr ())"
proof (induction created arbitrary: items)
  case Nil
  then show ?case by simp
next
  case (Cons p created)
  from Cons.prems obtain items' where
    f: "full_clean db p = Inr ()" and
    r: "clean_and_make_cache_items db created = Inr items'" and
    i: "items = make_cache_items p @ items'"
    by (auto split: sum.splits)
  from Cons.IH[OF r] f i show ?case by simp
qed

lemma bulk_create_Inr:
  assumes "bulk_create db permits = Inr (created, db')"
  shows "cache_rows db' = cache_rows db @ concat (map make_cache_items created)"
    and "permit_series_rows db' = permit_series_rows db"
    and "map subjects created = map subjects permits"
    and "map areas created = map areas permits"
proof -
  from assms obtain db1 items where
    m: "model_bulk_create permits db = Inr (created, db1)" and
    c: "clean_and_make_cache_items db1 created = Inr items" and
    d: "db' = db1\<lparr>cache_rows := cache_rows db1 @ items\<rparr>"
    unfolding bulk_create_def atomic_def bulk_create_block_def
    by (auto split: sum.splits prod.splits)
  note mm = model_bulk_create_Inr[OF m] and cc = clean_and_make_Inr[OF c]
  show "cache_rows db' = cache_rows db @ concat (map make_cache_items created)"
    using d mm cc by simp
  show "permit_series_rows db' = permit_series_rows db" using d mm by simp
  show "map subjects created = map subjects permits" using mm by simp
  show "map areas created = map areas permits" using mm by simp
qed

lemma bulk_create_invalid:
  assumes "p \<in> set permits"
    and "\<not> subjects_validator (subjects p) \<or> \<not> areas_validator (areas p)"
  shows "\<exists>e. bulk_create db permits = Inl e"
proof (cases "model_bulk_create permits db")
  case (Inl x)
  then show ?thesis unfolding bulk_create_def atomic_def bulk_create_block_def
    by (cases x) simp
next
  case (Inr r)
  obtain created db1 where r: "r = (created, db1)" by (cases r)
  note mm = model_bulk_create_Inr[OF Inr[unfolded r]]
  from assms(1) obtain i where i: "i < length permits" "permits ! i = p"
    by (auto simp: in_set_conv_nth)
  have len: "length created = length permits"
    using mm by (metis length_map)
  have "subjects (created ! i) = subjects p" "areas (created ! i) = areas p"
    using mm i len by (metis nth_map)+
  with assms(2) i len have
    "\<exists>q \<in> set created. \<not> subjects_validator (subjects q) \<or> \<not> areas_validator (areas q)"
    by (metis nth_mem)
  from clean_and_make_invalid[OF this, of db1] Inr r show ?thesis
    unfolding bulk_create_def atomic_def bulk_create_block_def by simp
qed


subsection \<open>Rejected writes\<close>

text \<open>
  C4, as claimed, has validation run before the transaction begins mutating rows, for a
  single save and for a bulk create alike. \<^verbatim>\<open>bulk_create\<close> does otherwise: its
  block first inserts the permits and validates them afterwards. At the moment the
  invalid permit of the sample data is rejected, the block has written its row.
\<close>

theorem C4_counterexample_bulk_create_writes_before_validation:
  "\<not> subjects_validator (subjects invalid_permit)
   \<and> bulk_create_block [invalid_permit] sample_db =
       Inl (ValidationError, sample_db\<lparr>permit_rows := [invalid_permit\<lparr>permit_pk := Some 1\<rparr>]\<rparr>)
   \<and> permit_rows (sample_db\<lparr>permit_rows := [invalid_permit\<lparr>permit_pk := Some 1\<rparr>]\<rparr>)
       \<noteq> permit_rows sample_db"
  by code_simp

text \<open>
  C4, amended. If an entry of the subjects or of the areas of a permit fails its schema,
  \<^verbatim>\<open>save\<close> raises \<^verbatim>\<open>ValidationError\<close> from \<^verbatim>\<open>full_clean\<close>, before its
  atomic block is entered, and a \<^verbatim>\<open>bulk_create\<close> of a list with that permit
  raises out of its atomic block, which is rolled back. After either rejected write the
  database, permits and cache rows, is the one before the attempt.
\<close>

theorem C4_invalid_entry_rejects_the_write:
  assumes "\<not> subjects_validator (subjects p) \<or> \<not> areas_validator (areas p)"
  shows "save db p = Inl ValidationError
         \<and> db_after db (save db p) = db
         \<and> (p \<in> set permits \<longrightarrow>
              (\<exists>e. bulk_create db permits = Inl e)
              \<and> db_after db (bulk_create db permits) = db)"
proof -
  have s: "save db p = Inl ValidationError"
    unfolding save_def full_clean_invalid[OF assms] by simp
  then have sa: "db_after db (save db p) = db"
    unfolding db_after_def by simp
  have b: "p \<in> set permits \<longrightarrow>
              (\<exists>e. bulk_create db permits = Inl e)
              \<and> db_after db (bulk_create db permits) = db"
  proof
    assume "p \<in> set permits"
    from bulk_create_invalid[OF this assms, of db] obtain e
      where e: "bulk_create db permits = Inl e" by blast
    then show "(\<exists>e. bulk_create db permits = Inl e)
              \<and> db_after db (bulk_create db permits) = db"
      unfolding db_after_def by simp
  qed
  from s sa b show ?thesis by blast
qed

text \<open>
  C4 on the sample data: the invalid permit alone, and as the second permit of a bulk
  create whose first permit is valid.
\<close>

theorem C4_witness:
  "save sample_db invalid_permit = Inl ValidationError
   \<and> db_after sample_db (save sample_db invalid_permit) = sample_db
   \<and> bulk_create sample_db [sample_permit, invalid_permit] = Inl ValidationError
   \<and> db_after sample_db (bulk_create sample_db [sample_permit, invalid_permit]) = sample_db"
proof -
  have h: "\<not> subjects_validator (subjects invalid_permit) \<or> \<not> areas_validator (areas invalid_permit)"
    by code_simp
  have m: "invalid_permit \<in> set [sample_permit, invalid_permit]" by simp
  have e: "bulk_create sample_db [sample_permit, invalid_permit] = Inl ValidationError"
    by code_simp
  from C4_invalid_entry_rejects_the_write[OF h, of sample_db "[sample_permit, invalid_permit]"] m e
  show ?thesis by (simp add: db_after_def)
qed

subsection \<open>Saving again\<close>

text \<open>
  C8. After a permit has been saved, saving it again with the same subjects and areas
  leaves its cache rows the same set of (registration number, area identifier, start
  time, end time) tuples; the rows are even the same list. This holds whether the second
  save succeeds or is rejected for another field.
\<close>

theorem C8_resaving_unchanged_lists_keeps_the_cache_rows:
  assumes "save db p = Inr (p1, db1)"
    and "permit_pk p2 = permit_pk p1" and "subjects p2 = subjects p1" and "areas p2 = areas p1"
  shows "cache_tuples (db_after db1 (save db1 p2)) (permit_pk p1) = cache_tuples db1 (permit_pk p1)
         \<and> cache_items (db_after db1 (save db1 p2)) (permit_pk p1) = cache_items db1 (permit_pk p1)"
proof -
  have before: "cache_items db1 (permit_pk p1) = make_cache_items p1"
    by (rule cache_items_after_save[OF assms(1)])
  have "cache_items (db_after db1 (save db1 p2)) (permit_pk p1) = cache_items db1 (permit_pk p1)"
  proof (cases "save db1 p2")
    case (Inl e)
    then show ?thesis unfolding db_after_def by simp
  next
    case (Inr r)
    obtain p3 db2 where r: "r = (p3, db2)" by (cases r)
    have pk: "permit_pk p2 \<noteq> None"
      using save_block_Inr(5)[OF save_Inr(1)[OF assms(1)]] assms(2) by simp
    have p3: "p3 = p2"
      using save_block_Inr(6)[OF save_Inr(1)[OF Inr[unfolded r]] pk] .
    have "cache_items db2 (permit_pk p3) = make_cache_items p3"
      by (rule cache_items_after_save[OF Inr[unfolded r]])
    moreover have "make_cache_items p2 = make_cache_items p1"
      by (rule make_cache_items_depends[OF assms(2,3,4)])
    ultimately show ?thesis using before p3 assms(2) Inr r
      unfolding db_after_def by simp
  qed
  then show ?thesis unfolding cache_tuples_def by simp
qed

text \<open>
  C8 on the sample data: the permit of scenario 6 is saved, then saved again with
  another external identifier; its one cache row stays.
\<close>

theorem C8_witness:
  "save sample_db sample_permit = Inr (sample_permit\<lparr>permit_pk := Some 1\<rparr>, saved_db)
   \<and> save saved_db (sample_permit\<lparr>permit_pk := Some 1, external_id := Some ''E1''\<rparr>)
       = Inr (sample_permit\<lparr>permit_pk := Some 1, external_id := Some ''E1''\<rparr>,
              saved_db\<lparr>permit_rows := [sample_permit\<lparr>permit_pk := Some 1, external_id := Some ''E1''\<rparr>]\<rparr>)
   \<and> cache_tuples (saved_db\<lparr>permit_rows := [sample_permit\<lparr>permit_pk := Some 1, external_id := Some ''E1''\<rparr>]\<rparr>) (Some 1)
       = cache_tuples saved_db (Some 1)
   \<and> cache_tuples saved_db (Some 1) = {(''ABC123'', ''A1'', 5, 10)}"
proof -
  have h: "save sample_db sample_permit = Inr (sample_permit\<lparr>permit_pk := Some 1\<rparr>, saved_db)"
    by code_simp
  have r: "save saved_db (sample_permit\<lparr>permit_pk := Some 1, external_id := Some ''E1''\<rparr>)
       = Inr (sample_permit\<lparr>permit_pk := Some 1, external_id := Some ''E1''\<rparr>,
              saved_db\<lparr>permit_rows := [sample_permit\<lparr>permit_pk := Some 1, external_id := Some ''E1''\<rparr>]\<rparr>)"
    by code_simp
  have t: "cache_tuples saved_db (Some 1) = {(''ABC123'', ''A1'', 5, 10)}"
    by (simp add: cache_tuples_def cache_items_def saved_db_def sample_row_def)
  from C8_resaving_unchanged_lists_keeps_the_cache_rows[OF h,
      of "sample_permit\<lparr>permit_pk := Some 1, external_id := Some ''E1''\<rparr>"]
  have "cache_tuples (db_after saved_db (save saved_db (sample_permit\<lparr>permit_pk := Some 1, external_id := Some ''E1''\<rparr>))) (Some 1)
       = cache_tuples saved_db (Some 1)" by simp
  with h r t show ?thesis unfolding db_after_def by simp
qed

subsection \<open>The intervals of the stored cache rows\<close>

lemma series_save_cache_rows:
  "series_save now s db = (s', db') \<Longrightarrow> cache_rows db' = cache_rows db \<and> permit_rows db' = permit_rows db"
  unfolding series_save_def Let_def by (auto split: if_splits)

lemma activate_Inr:
  "activate k db = Inr (u, db1) \<Longrightarrow>
     cache_rows db1 = cache_rows db \<and> permit_rows db1 = permit_rows db
     \<and> permit_series_rows db1 = map (\<lambda>s. s\<lparr>active := (series_pk s = Some k)\<rparr>) (permit_series_rows db)
     \<and> series_exists db k"
  unfolding activate_def by (auto split: if_splits)

lemma prune_Inr:
  "prune now w db = Inr (n, db') \<Longrightarrow>
     cache_rows db' = cache_rows db \<and> permit_rows db' = permit_rows db
     \<and> permit_series_rows db' =
         filter (\<lambda>s. s \<notin> set (prunable now w (permit_series_rows db))) (permit_series_rows db)
     \<and> n = length (prunable now w (permit_series_rows db))"
  unfolding prune_def Let_def by (auto split: if_splits)

lemma atomic_Inr: "atomic body db = Inr r \<longleftrightarrow> body db = Inr r"
  unfolding atomic_def by (auto split: sum.splits prod.splits)

lemma activate_endpoint_Inr:
  assumes "activate_endpoint now w k db = Inr (n, db')"
  shows "\<exists>db1. activate k db = Inr ((), db1) \<and> prune now w db1 = Inr (n, db')"
  using assms unfolding activate_endpoint_def atomic_Inr activate_block_def
  by (auto split: sum.splits prod.splits)

lemma activate_endpoint_cache_rows:
  assumes "activate_endpoint now w k db = Inr (n, db')"
  shows "cache_rows db' = cache_rows db"
proof -
  from activate_endpoint_Inr[OF assms] obtain db1
    where "activate k db = Inr ((), db1)" "prune now w db1 = Inr (n, db')" by blast
  then show ?thesis using activate_Inr prune_Inr by metis
qed

lemma reachable_cache_intervals:
  "reachable db \<Longrightarrow> c \<in> set (cache_rows db) \<Longrightarrow> start_time c < end_time c"
proof (induction arbitrary: c rule: reachable.induct)
  case initial
  then show ?case by (simp add: empty_store_def)
next
  case (series_saved db now s s' db')
  then show ?case using series_save_cache_rows by metis
next
  case (activated db now prunable_after k n db')
  then show ?case using activate_endpoint_cache_rows by metis
next
  case (pruned db now prunable_after n db')
  then show ?case unfolding atomic_Inr using prune_Inr by metis
next
  case (saved db p p' db')
  note b = save_block_Inr(1)[OF save_Inr(1)[OF saved.hyps(2)]]
  from saved.prems have "c \<in> set (cache_rows db) \<or> c \<in> set (make_cache_items p')"
    unfolding b by auto
  then show ?case using saved.IH interval_make_cache_items by blast
next
  case (bulk_created db permits created db')
  note b = bulk_create_Inr(1)[OF bulk_created.hyps(2)]
  from bulk_created.prems have
    "c \<in> set (cache_rows db) \<or> (\<exists>p \<in> set created. c \<in> set (make_cache_items p))"
    unfolding b by auto
  then show ?case using bulk_created.IH interval_make_cache_items by blast
next
  case (permit_deleted db k)
  then show ?case unfolding delete_permit_def by simp
qed

text \<open>
  C9. In every database that the operations can produce, each stored cache row has its
  start time strictly before its end time: the rows come from \<^verbatim>\<open>_make_cache_items\<close>
  alone (through \<^verbatim>\<open>save\<close> and \<^verbatim>\<open>bulk_create\<close>), which drops a pair whose
  start is at or after its end, and the other operations only keep or delete rows.
\<close>

theorem C9_stored_intervals_are_nonempty:
  "reachable db \<Longrightarrow> \<forall>c \<in> set (cache_rows db). start_time c < end_time c"
  using reachable_cache_intervals by blast

lemma reachable_saved_db: "reachable saved_db"
proof -
  have c: "series_save 0 \<lparr>series_pk = None, created_at = 0, modified_at = 0, active = True\<rparr> empty_store
            = (sample_series, sample_db)" by code_simp
  have s: "save sample_db sample_permit = Inr (sample_permit\<lparr>permit_pk := Some 1\<rparr>, saved_db)"
    by code_simp
  from reachable.saved[OF reachable.series_saved[OF reachable.initial c] s] show ?thesis .
qed

text \<open>
  C9 on the sample data: the database after creating a series and saving the sample
  permit is reachable, and its one cache row runs from day 5 to day 10.
\<close>

theorem C9_witness:
  "cache_rows saved_db = [sample_row] \<and> start_time sample_row < end_time sample_row"
proof -
  have r: "cache_rows saved_db = [sample_row]" by (simp add: saved_db_def)
  from C9_stored_intervals_are_nonempty[OF reachable_saved_db] r show ?thesis by simp
qed

subsection \<open>Blank lists\<close>

lemma full_clean_Inr:
  "full_clean db p = Inr () \<longleftrightarrow>
     (case external_id p of None \<Rightarrow> True | Some e \<Rightarrow> length e \<le> 50)
     \<and> subjects_validator (subjects p) \<and> areas_validator (areas p) \<and> unique_together db p"
  unfolding full_clean_def by (auto split: option.splits)

lemma save_succeeds_iff:
  "(\<exists>p' db'. save db p = Inr (p', db')) \<longleftrightarrow> full_clean db p = Inr () \<and> permit_constraints db p"
proof
  assume "\<exists>p' db'. save db p = Inr (p', db')"
  then obtain p' db' where s: "save db p = Inr (p', db')" by blast
  from save_Inr[OF s] obtain db1 where "model_save p db = Inr (p', db1)"
    unfolding save_block_def by (auto split: sum.splits prod.splits)
  from model_save_Inr(7)[OF this] save_Inr(2)[OF s]
  show "full_clean db p = Inr () \<and> permit_constraints db p" by simp
next
  assume "full_clean db p = Inr () \<and> permit_constraints db p"
  then show "\<exists>p' db'. save db p = Inr (p', db')" using save_succeeds by blast
qed

lemma make_cache_items_blank:
  "subjects p = [] \<or> areas p = [] \<Longrightarrow> make_cache_items p = []"
  unfolding make_cache_items_def by auto

lemma no_cache_items_no_match:
  assumes "cache_items db k = []" and "permit_pk q = k"
  shows "q \<notin> set (filter_cache_items_in db self items)"
proof -
  from assms(1) have "\<forall>c \<in> set (cache_rows db). permit c \<noteq> k"
    unfolding cache_items_def by (simp add: filter_empty_conv)
  then show ?thesis using assms(2) unfolding in_filter_cache_items_in by auto
qed

text \<open>
  C10. Let the subjects or the areas of a permit be empty. The schema accepts an empty
  list for either field, so the save succeeds exactly when the rest of the permit is
  acceptable (the entries of the other list, the external identifier, the series). The
  cache builder yields nothing for it; after the save the permit owns no cache row, and
  no query by time, by subject or by area returns it, whatever the argument.
\<close>

theorem C10_blank_lists_give_no_cache_rows:
  assumes "subjects p = [] \<or> areas p = []"
  shows "subjects_validator [] \<and> areas_validator []
     \<and> ((\<exists>p' db'. save db p = Inr (p', db')) \<longleftrightarrow>
          (case external_id p of None \<Rightarrow> True | Some e \<Rightarrow> length e \<le> 50)
          \<and> subjects_validator (subjects p) \<and> areas_validator (areas p)
          \<and> unique_together db p \<and> series_exists db (series p))
     \<and> make_cache_items p = []
     \<and> (save db p = Inr (p', db') \<longrightarrow>
          cache_items db' (permit_pk p') = []
          \<and> (\<forall>q. permit_pk q = permit_pk p' \<longrightarrow>
                q \<notin> set (by_time db' self t)
                \<and> q \<notin> set (by_subject db' self r)
                \<and> q \<notin> set (by_area db' self a)))"
proof -
  have v: "subjects_validator [] \<and> areas_validator []"
    unfolding subjects_validator_def areas_validator_def by simp
  have s: "(\<exists>p' db'. save db p = Inr (p', db')) \<longleftrightarrow>
          (case external_id p of None \<Rightarrow> True | Some e \<Rightarrow> length e \<le> 50)
          \<and> subjects_validator (subjects p) \<and> areas_validator (areas p)
          \<and> unique_together db p \<and> series_exists db (series p)"
    unfolding save_succeeds_iff full_clean_Inr permit_constraints_def by blast
  have m: "make_cache_items p = []" by (rule make_cache_items_blank[OF assms])
  have q: "save db p = Inr (p', db') \<longrightarrow>
          cache_items db' (permit_pk p') = []
          \<and> (\<forall>q. permit_pk q = permit_pk p' \<longrightarrow>
                q \<notin> set (by_time db' self t)
                \<and> q \<notin> set (by_subject db' self r)
                \<and> q \<notin> set (by_area db' self a))"
  proof
    assume sv: "save db p = Inr (p', db')"
    note b = save_block_Inr[OF save_Inr(1)[OF sv]]
    have "subjects p' = [] \<or> areas p' = []" using assms b(3,4) by simp
    then have "make_cache_items p' = []" by (rule make_cache_items_blank)
    then have e: "cache_items db' (permit_pk p') = []"
      using cache_items_after_save[OF sv] by simp
    show "cache_items db' (permit_pk p') = []
          \<and> (\<forall>q. permit_pk q = permit_pk p' \<longrightarrow>
                q \<notin> set (by_time db' self t)
                \<and> q \<notin> set (by_subject db' self r)
                \<and> q \<notin> set (by_area db' self a))"
      using e no_cache_items_no_match[OF e]
      unfolding by_time_def by_subject_def by_area_def Let_def by simp
  qed
  from v s m q show ?thesis by blast
qed

text \<open>
  C10 on the sample data: the permit without subjects is saved next to the sample
  permit, owns no cache row, and a query by time at day 7 returns the sample permit only.
\<close>

theorem C10_witness:
  "subjects blank_permit = []
   \<and> save saved_db blank_permit =
       Inr (blank_permit\<lparr>permit_pk := Some 2\<rparr>,
            saved_db\<lparr>permit_rows := permit_rows saved_db @ [blank_permit\<lparr>permit_pk := Some 2\<rparr>]\<rparr>)
   \<and> cache_items (saved_db\<lparr>permit_rows := permit_rows saved_db @ [blank_permit\<lparr>permit_pk := Some 2\<rparr>]\<rparr>) (Some 2) = []
   \<and> blank_permit\<lparr>permit_pk := Some 2\<rparr> \<notin> set (by_time
        (saved_db\<lparr>permit_rows := permit_rows saved_db @ [blank_permit\<lparr>permit_pk := Some 2\<rparr>]\<rparr>)
        (permit_rows saved_db @ [blank_permit\<lparr>permit_pk := Some 2\<rparr>]) 7)
   \<and> by_time
        (saved_db\<lparr>permit_rows := permit_rows saved_db @ [blank_permit\<lparr>permit_pk := Some 2\<rparr>]\<rparr>)
        (permit_rows saved_db @ [blank_permit\<lparr>permit_pk := Some 2\<rparr>]) 7
       = [sample_permit\<lparr>permit_pk := Some 1\<rparr>]"
proof -
  have h: "subjects blank_permit = [] \<or> areas blank_permit = []" by code_simp
  have s: "save saved_db blank_permit =
       Inr (blank_permit\<lparr>permit_pk := Some 2\<rparr>,
            saved_db\<lparr>permit_rows := permit_rows saved_db @ [blank_permit\<lparr>permit_pk := Some 2\<rparr>]\<rparr>)"
    by code_simp
  have b: "by_time
        (saved_db\<lparr>permit_rows := permit_rows saved_db @ [blank_permit\<lparr>permit_pk := Some 2\<rparr>]\<rparr>)
        (permit_rows saved_db @ [blank_permit\<lparr>permit_pk := Some 2\<rparr>]) 7
       = [sample_permit\<lparr>permit_pk := Some 1\<rparr>]"
    by code_simp
  have k: "permit_pk (blank_permit\<lparr>permit_pk := Some 2\<rparr>) = Some 2" by simp
  from C10_blank_lists_give_no_cache_rows[OF h, of saved_db
      "blank_permit\<lparr>permit_pk := Some 2\<rparr>"
      "saved_db\<lparr>permit_rows := permit_rows saved_db @ [blank_permit\<lparr>permit_pk := Some 2\<rparr>]\<rparr>"
      "permit_rows saved_db @ [blank_permit\<lparr>permit_pk := Some 2\<rparr>]" 7] s k
  have "cache_items (saved_db\<lparr>permit_rows := permit_rows saved_db @ [blank_permit\<lparr>permit_pk := Some 2\<rparr>]\<rparr>) (Some 2) = []
    \<and> blank_permit\<lparr>permit_pk := Some 2\<rparr> \<notin> set (by_time
        (saved_db\<lparr>permit_rows := permit_rows saved_db @ [blank_permit\<lparr>permit_pk := Some 2\<rparr>]\<rparr>)
        (permit_rows saved_db @ [blank_permit\<lparr>permit_pk := Some 2\<rparr>]) 7)"
    by simp
  moreover have "subjects blank_permit = []" by code_simp
  ultimately show ?thesis using s b by blast
qed

subsection \<open>Permit series\<close>

lemma fold_max_pk_ge:
  "m \<le> fold (\<lambda>k m. case k of None \<Rightarrow> m | Some n \<Rightarrow> max n m) pks (m::nat)"
proof (induction pks arbitrary: m)
  case Nil
  then show ?case by simp
next
  case (Cons k pks)
  show ?case
  proof (cases k)
    case None
    then show ?thesis using Cons.IH[of m] by simp
  next
    case (Some n)
    then show ?thesis using Cons.IH[of "max n m"] by simp
  qed
qed

lemma fold_max_pk_bound:
  "Some n \<in> set pks \<Longrightarrow>
     n \<le> fold (\<lambda>k m. case k of None \<Rightarrow> m | Some n \<Rightarrow> max n m) pks (m::nat)"
proof (induction pks arbitrary: m)
  case Nil
  then show ?case by simp
next
  case (Cons k pks)
  show ?case
  proof (cases "k = Some n")
    case True
    then show ?thesis using fold_max_pk_ge[of "max n m" pks] by simp
  next
    case False
    with Cons.prems have "Some n \<in> set pks" by simp
    from Cons.IH[OF this] show ?thesis by simp
  qed
qed

lemma fresh_pk_fresh: "Some (fresh_pk pks) \<notin> set pks"
proof
  assume "Some (fresh_pk pks) \<in> set pks"
  from fold_max_pk_bound[OF this, of 0] show False unfolding fresh_pk_def by simp
qed

lemma series_save_keys:
  assumes "series_save now s db = (s', db')"
    and "distinct (map series_pk (permit_series_rows db))"
  shows "distinct (map series_pk (permit_series_rows db'))"
proof (cases "series_pk s \<noteq> None \<and> list_ex (\<lambda>r. series_pk r = series_pk s) (permit_series_rows db)")
  case True
  then have "permit_series_rows db' =
      map (\<lambda>r. if series_pk r = series_pk s then s\<lparr>modified_at := now\<rparr> else r) (permit_series_rows db)"
    using assms(1) unfolding series_save_def Let_def by auto
  then have "map series_pk (permit_series_rows db') = map series_pk (permit_series_rows db)"
    by (simp add: comp_def cong: map_cong)
  then show ?thesis using assms(2) by simp
next
  case False
  show ?thesis
  proof (cases "series_pk s")
    case None
    then have "map series_pk (permit_series_rows db') =
       map series_pk (permit_series_rows db) @ [Some (fresh_pk (map series_pk (permit_series_rows db)))]"
      using assms(1) unfolding series_save_def Let_def by auto
    then show ?thesis
      using assms(2) fresh_pk_fresh[of "map series_pk (permit_series_rows db)"] by simp
  next
    case (Some k)
    with False have nk: "Some k \<notin> set (map series_pk (permit_series_rows db))"
      by (auto simp: list_ex_iff)
    from Some False have "map series_pk (permit_series_rows db') =
       map series_pk (permit_series_rows db) @ [Some k]"
      using assms(1) unfolding series_save_def Let_def by auto
    then show ?thesis using assms(2) nk by simp
  qed
qed

lemma activate_endpoint_rows:
  assumes "activate_endpoint now w k db = Inr (n, db')"
  shows "permit_series_rows db' =
           map (\<lambda>s. s\<lparr>active := (series_pk s = Some k)\<rparr>)
               (filter (\<lambda>s. series_pk s = Some k \<or> now - w \<le> created_at s) (permit_series_rows db))"
    and "series_exists db k"
    and "permit_rows db' = permit_rows db"
proof -
  from activate_endpoint_Inr[OF assms] obtain db1
    where a: "activate k db = Inr ((), db1)" and p: "prune now w db1 = Inr (n, db')" by blast
  note aa = activate_Inr[OF a] and pp = prune_Inr[OF p]
  let ?rows1 = "map (\<lambda>s. s\<lparr>active := (series_pk s = Some k)\<rparr>) (permit_series_rows db)"
  have "filter (\<lambda>s. s \<notin> set (prunable now w ?rows1)) ?rows1
        = filter (\<lambda>s. \<not> (created_at s < now - w \<and> \<not> active s)) ?rows1"
    unfolding prunable_def Let_def by (rule filter_cong) auto
  also have "\<dots> = map (\<lambda>s. s\<lparr>active := (series_pk s = Some k)\<rparr>)
               (filter (\<lambda>s. series_pk s = Some k \<or> now - w \<le> created_at s) (permit_series_rows db))"
  proof -
    have "filter ((\<lambda>s. \<not> (created_at s < now - w \<and> \<not> active s))
                    \<circ> (\<lambda>s. s\<lparr>active := (series_pk s = Some k)\<rparr>)) (permit_series_rows db)
          = filter (\<lambda>s. series_pk s = Some k \<or> now - w \<le> created_at s) (permit_series_rows db)"
      by (rule filter_cong) auto
    then show ?thesis unfolding filter_map by simp
  qed
  finally show "permit_series_rows db' =
           map (\<lambda>s. s\<lparr>active := (series_pk s = Some k)\<rparr>)
               (filter (\<lambda>s. series_pk s = Some k \<or> now - w \<le> created_at s) (permit_series_rows db))"
    using aa pp by simp
  show "series_exists db k" using aa by simp
  show "permit_rows db' = permit_rows db" using aa pp by simp
qed

lemma reachable_series_keys:
  "reachable db \<Longrightarrow> distinct (map series_pk (permit_series_rows db))"
proof (induction rule: reachable.induct)
  case initial
  then show ?case by (simp add: empty_store_def)
next
  case (series_saved db now s s' db')
  then show ?case using series_save_keys by blast
next
  case (activated db now prunable_after k n db')
  have "map series_pk (permit_series_rows db') =
        map series_pk (filter (\<lambda>s. series_pk s = Some k \<or> now - prunable_after \<le> created_at s) (permit_series_rows db))"
    unfolding activate_endpoint_rows(1)[OF activated.hyps(2)] by (simp add: comp_def)
  then show ?case using activated.IH by (simp add: distinct_map_filter)
next
  case (pruned db now prunable_after n db')
  then show ?case unfolding atomic_Inr using prune_Inr[of now prunable_after db n db']
    by (simp add: distinct_map_filter)
next
  case (saved db p p' db')
  then show ?case using save_block_Inr(2)[OF save_Inr(1)] by metis
next
  case (bulk_created db permits created db')
  then show ?case using bulk_create_Inr(2) by metis
next
  case (permit_deleted db k)
  then show ?case unfolding delete_permit_def by simp
qed

lemma distinct_map_filter_eq_le:
  "distinct (map f xs) \<Longrightarrow> length (filter (\<lambda>x. f x = a) xs) \<le> 1"
  by (induction xs) (auto simp: filter_empty_conv image_iff)

subsection \<open>The active series\<close>

text \<open>
  C5, as claimed, has at most one active series at any time. Nothing in the model of
  \<^verbatim>\<open>PermitSeries\<close> enforces it: the flag is an ordinary field that
  \<^verbatim>\<open>PermitSeries.objects.create(active=True)\<close> sets, as
  \<^verbatim>\<open>test_series_get_activated\<close> does, and \<^verbatim>\<open>latest_active\<close> chooses among
  several active series. Two such creations give a database with two active series.
\<close>

theorem C5_counterexample_two_series_created_active:
  "reachable two_active_db \<and> length (series_active (permit_series_rows two_active_db)) = 2"
proof -
  have a: "series_save 0 \<lparr>series_pk = None, created_at = 0, modified_at = 0, active = True\<rparr> empty_store
            = (sample_series, sample_db)" by code_simp
  have b: "series_save 1 \<lparr>series_pk = None, created_at = 1, modified_at = 1, active = True\<rparr> sample_db
            = (\<lparr>series_pk = Some 2, created_at = 1, modified_at = 1, active = True\<rparr>, two_active_db)"
    by code_simp
  have "reachable two_active_db"
    by (rule reachable.series_saved[OF reachable.series_saved[OF reachable.initial a] b])
  moreover have "length (series_active (permit_series_rows two_active_db)) = 2" by code_simp
  ultimately show ?thesis by simp
qed

lemma create_series_default_active:
  "series_active (permit_series_rows (snd (create_series t False db)))
     = series_active (permit_series_rows db)"
  unfolding create_series_def series_save_def Let_def series_active_def by simp

text \<open>
  C5, amended. After a successful activation of series B, in a database that the
  operations can produce, B is active and it is the only active series: a series A that
  was active before is inactive, and no third series is active. Creating a series with
  the default flag afterwards leaves the active series as they are. (At most one series
  is active after an activation, not at any time.)
\<close>

theorem C5_activation_leaves_one_active_series:
  assumes "reachable db" and "activate_endpoint now w B db = Inr (n, db')"
  shows "map series_pk (series_active (permit_series_rows db')) = [Some B]
       \<and> (\<forall>s \<in> set (permit_series_rows db'). series_pk s \<noteq> Some B \<longrightarrow> \<not> active s)
       \<and> length (series_active (permit_series_rows db')) = 1
       \<and> series_active (permit_series_rows (snd (create_series t False db')))
           = series_active (permit_series_rows db')"
proof -
  note r = activate_endpoint_rows[OF assms(2)]
  let ?kept = "filter (\<lambda>s. series_pk s = Some B \<or> now - w \<le> created_at s) (permit_series_rows db)"
  let ?flag = "\<lambda>s. s\<lparr>active := (series_pk s = Some B)\<rparr>"
  have act: "series_active (permit_series_rows db') = map ?flag (filter (\<lambda>s. series_pk s = Some B) ?kept)"
    unfolding r(1) series_active_def filter_map by (simp add: comp_def)
  have eq: "filter (\<lambda>s. series_pk s = Some B) ?kept = filter (\<lambda>s. series_pk s = Some B) (permit_series_rows db)"
    by (simp cong: filter_cong) (rule filter_cong, auto)
  have le: "length (filter (\<lambda>s. series_pk s = Some B) (permit_series_rows db)) \<le> 1"
    by (rule distinct_map_filter_eq_le[OF reachable_series_keys[OF assms(1)]])
  have "filter (\<lambda>s. series_pk s = Some B) (permit_series_rows db) \<noteq> []"
    using r(2) unfolding series_exists_def by (simp add: filter_empty_conv list_ex_iff)
  with le have one: "length (filter (\<lambda>s. series_pk s = Some B) (permit_series_rows db)) = 1"
    by (cases "filter (\<lambda>s. series_pk s = Some B) (permit_series_rows db)") auto
  then obtain x where x: "filter (\<lambda>s. series_pk s = Some B) (permit_series_rows db) = [x]"
    by (auto simp: length_Suc_conv)
  then have "x \<in> set (filter (\<lambda>s. series_pk s = Some B) (permit_series_rows db))" by simp
  then have xk: "series_pk x = Some B" by simp
  have a1: "map series_pk (series_active (permit_series_rows db')) = [Some B]"
    unfolding act eq x using xk by simp
  have a2: "\<forall>s \<in> set (permit_series_rows db'). series_pk s \<noteq> Some B \<longrightarrow> \<not> active s"
    unfolding r(1) by auto
  have a3: "length (series_active (permit_series_rows db')) = 1"
    unfolding act eq x by simp
  have a4: "series_active (permit_series_rows (snd (create_series t False db')))
           = series_active (permit_series_rows db')"
    by (rule create_series_default_active)
  from a1 a2 a3 a4 show ?thesis by blast
qed

lemma reachable_get_activated_db: "reachable get_activated_db"
proof -
  have a: "series_save 0 \<lparr>series_pk = None, created_at = 0, modified_at = 0, active = False\<rparr> empty_store
            = (new_series, \<lparr>permit_series_rows = [new_series], permit_rows = [], cache_rows = []\<rparr>)"
    by code_simp
  have b: "series_save 1 \<lparr>series_pk = None, created_at = 1, modified_at = 1, active = True\<rparr>
             \<lparr>permit_series_rows = [new_series], permit_rows = [], cache_rows = []\<rparr>
            = (active_series, get_activated_db)"
    by code_simp
  show ?thesis
    by (rule reachable.series_saved[OF reachable.series_saved[OF reachable.initial a] b])
qed

text \<open>
  C5 on the database of \<^verbatim>\<open>test_series_get_activated\<close>: series 2 is active,
  series 1 is activated, and afterwards series 1 alone is active.
\<close>

theorem C5_witness:
  "series_active (permit_series_rows get_activated_db) = [active_series]
   \<and> activate_endpoint 2 (days 3) 1 get_activated_db =
       Inr (0, get_activated_db\<lparr>permit_series_rows :=
                 [new_series\<lparr>active := True\<rparr>, active_series\<lparr>active := False\<rparr>]\<rparr>)
   \<and> map series_pk (series_active [new_series\<lparr>active := True\<rparr>, active_series\<lparr>active := False\<rparr>])
       = [Some 1]"
proof -
  have b: "series_active (permit_series_rows get_activated_db) = [active_series]" by code_simp
  have e: "activate_endpoint 2 (days 3) 1 get_activated_db =
       Inr (0, get_activated_db\<lparr>permit_series_rows :=
                 [new_series\<lparr>active := True\<rparr>, active_series\<lparr>active := False\<rparr>]\<rparr>)"
    by code_simp
  from C5_activation_leaves_one_active_series[OF reachable_get_activated_db e] b e
  show ?thesis by simp
qed

subsection \<open>The sweep\<close>

text \<open>
  C6, as claimed, prunes a series if and only if it is inactive and has spent more than
  the retention window in the inactive state. \<^verbatim>\<open>prunable\<close> compares the creation
  time, not the time of deactivation. A series created active on day 0 and deactivated on
  day 100 is selected, and deleted, by a sweep on day 101 with a window of three days,
  after one day in the inactive state.
\<close>

theorem C6_counterexample_pruned_one_day_after_deactivation:
  "active sample_series
   \<and> series_save (days 100) (sample_series\<lparr>active := False\<rparr>) sample_db
       = (deactivated_series, deactivated_db)
   \<and> prunable (days 101) (days 3) (permit_series_rows deactivated_db) = [deactivated_series]
   \<and> atomic (prune (days 101) (days 3)) deactivated_db = Inr (1, empty_store)
   \<and> \<not> inactive_longer_than (days 101) (days 3) (days 100) deactivated_series"
  by code_simp

lemma in_prunable:
  "s \<in> set (prunable now w self) \<longleftrightarrow>
     s \<in> set self \<and> active s = False \<and> created_at s < now - w"
  unfolding prunable_def Let_def by auto

text \<open>
  C6, amended. The sweep selects exactly the series of the query set that are inactive
  and were created before now minus the retention window; an active series is never
  selected; and a sweep that succeeds deletes the selected series and no other series.
\<close>

theorem C6_prune_removes_inactive_series_created_before_limit:
  "(s \<in> set (prunable now w self) \<longleftrightarrow>
      s \<in> set self \<and> active s = False \<and> created_at s < now - w)
   \<and> (active s \<longrightarrow> s \<notin> set (prunable now w self))
   \<and> (atomic (prune now w) db = Inr (n, db') \<longrightarrow>
        permit_series_rows db' =
          filter (\<lambda>s. \<not> (active s = False \<and> created_at s < now - w)) (permit_series_rows db))"
proof -
  have a: "s \<in> set (prunable now w self) \<longleftrightarrow>
      s \<in> set self \<and> active s = False \<and> created_at s < now - w"
    by (rule in_prunable)
  have b: "active s \<longrightarrow> s \<notin> set (prunable now w self)"
    unfolding in_prunable by simp
  have c: "atomic (prune now w) db = Inr (n, db') \<longrightarrow>
        permit_series_rows db' =
          filter (\<lambda>s. \<not> (active s = False \<and> created_at s < now - w)) (permit_series_rows db)"
  proof
    assume "atomic (prune now w) db = Inr (n, db')"
    then have p: "prune now w db = Inr (n, db')" unfolding atomic_Inr .
    have f: "filter (\<lambda>s. s \<notin> set (prunable now w (permit_series_rows db))) (permit_series_rows db)
         = filter (\<lambda>s. \<not> (active s = False \<and> created_at s < now - w)) (permit_series_rows db)"
      by (rule filter_cong) (auto simp: in_prunable)
    show "permit_series_rows db' =
          filter (\<lambda>s. \<not> (active s = False \<and> created_at s < now - w)) (permit_series_rows db)"
      using prune_Inr[OF p] f by simp
  qed
  from a b c show ?thesis by blast
qed

text \<open>
  C6 on scenario 8 of the specification: the active series stays, the inactive one
  created four days before the sweep is deleted.
\<close>

theorem C6_witness:
  "active sample_series
   \<and> sample_series \<notin> set (prunable (days 5) (days 3) (permit_series_rows lifecycle_db))
   \<and> inactive_series \<in> set (prunable (days 5) (days 3) (permit_series_rows lifecycle_db))
   \<and> atomic (prune (days 5) (days 3)) lifecycle_db = Inr (1, sample_db)
   \<and> permit_series_rows sample_db = [sample_series]"
proof -
  have a: "active sample_series" by code_simp
  have p: "atomic (prune (days 5) (days 3)) lifecycle_db = Inr (1, sample_db)" by code_simp
  have i: "inactive_series \<in> set (permit_series_rows lifecycle_db) \<and> active inactive_series = False
           \<and> created_at inactive_series < days 5 - days 3" by code_simp
  have r: "permit_series_rows sample_db = [sample_series]" by code_simp
  note t = C6_prune_removes_inactive_series_created_before_limit[of _ "days 5" "days 3"
              "permit_series_rows lifecycle_db" lifecycle_db 1 sample_db]
  from t[of sample_series] a
  have 1: "sample_series \<notin> set (prunable (days 5) (days 3) (permit_series_rows lifecycle_db))" by blast
  from t[of inactive_series] i
  have 2: "inactive_series \<in> set (prunable (days 5) (days 3) (permit_series_rows lifecycle_db))" by blast
  from t[of sample_series] p
  have 3: "permit_series_rows sample_db =
             filter (\<lambda>s. \<not> (active s = False \<and> created_at s < days 5 - days 3))
                    (permit_series_rows lifecycle_db)" by blast
  from a 1 2 3 p r show ?thesis by simp
qed

subsection \<open>Activation and the sweep\<close>

text \<open>
  Whatever the endpoint is, if \<^verbatim>\<open>test_old_series_are_pruned\<close> passes on it,
  then its call in that test leaves fewer series than it found.
\<close>

lemma test_old_series_are_pruned_deletes:
  assumes "test_old_series_are_pruned endpoint 0 1 2 3 4"
  shows "\<exists>n db'. endpoint 4 1 test_db = Inr (n, db')
           \<and> length (permit_series_rows db') < length (permit_series_rows test_db)"
proof -
  have c: "create_series 0 False empty_store
         = (new_series, \<lparr>permit_series_rows = [new_series], permit_rows = [], cache_rows = []\<rparr>)"
    by code_simp
  have d: "create_series 1 False \<lparr>permit_series_rows = [new_series], permit_rows = [], cache_rows = []\<rparr>
         = (\<lparr>series_pk = Some 2, created_at = 1, modified_at = 1, active = False\<rparr>,
            \<lparr>permit_series_rows = [new_series, \<lparr>series_pk = Some 2, created_at = 1, modified_at = 1, active = False\<rparr>],
             permit_rows = [], cache_rows = []\<rparr>)"
    by code_simp
  have e: "series_save 3 \<lparr>series_pk = Some 2, created_at = 2 - days 3, modified_at = 1, active = False\<rparr>
            \<lparr>permit_series_rows = [new_series, \<lparr>series_pk = Some 2, created_at = 1, modified_at = 1, active = False\<rparr>],
             permit_rows = [], cache_rows = []\<rparr>
         = (old_series, test_db)"
    by code_simp
  have k: "series_pk new_series = Some 1" by code_simp
  have l: "length (permit_series_rows test_db) = 2" by code_simp
  from assms have "case endpoint 4 1 test_db of Inl e \<Rightarrow> False
                   | Inr (n, db4) \<Rightarrow> length (permit_series_rows db4) = 1"
    unfolding test_old_series_are_pruned_def by (simp add: c d e k l)
  then show ?thesis using l by (auto split: sum.splits prod.splits)
qed

text \<open>
  C7, as claimed, has activation delete no series. The repository's test
  \<^verbatim>\<open>test_old_series_are_pruned\<close> requires the opposite: it passes on the
  endpoint that sweeps after activating and fails on the activation alone, and in its
  database the three days old series is gone after the call.
\<close>

theorem C7_counterexample_activation_deletes_the_old_series:
  "test_old_series_are_pruned (\<lambda>now. activate_endpoint now (days 3)) 0 1 2 3 4
   \<and> \<not> test_old_series_are_pruned activate_without_sweep 0 1 2 3 4
   \<and> old_series \<in> set (permit_series_rows test_db)
   \<and> activate_endpoint 4 (days 3) 1 test_db
       = Inr (1, test_db\<lparr>permit_series_rows := [new_series\<lparr>active := True\<rparr>]\<rparr>)
   \<and> \<not> list_ex (\<lambda>s. series_pk s = series_pk old_series)
          (permit_series_rows (test_db\<lparr>permit_series_rows := [new_series\<lparr>active := True\<rparr>]\<rparr>))"
  by code_simp

text \<open>
  C7, amended. A successful call of the activation endpoint keeps, of the series rows
  that existed before, exactly the activated series and the series created at or after
  now minus the retention window, with their flags updated; it deletes the others, which
  are the prunable ones. The update of the flags by itself deletes no row.
\<close>

theorem C7_activation_deletes_only_prunable_series:
  assumes "activate_endpoint now w k db = Inr (n, db')"
  shows "permit_series_rows db' =
           map (\<lambda>s. s\<lparr>active := (series_pk s = Some k)\<rparr>)
               (filter (\<lambda>s. series_pk s = Some k \<or> now - w \<le> created_at s) (permit_series_rows db))
       \<and> (\<forall>db1. activate k db = Inr ((), db1) \<longrightarrow>
             map series_pk (permit_series_rows db1) = map series_pk (permit_series_rows db)
             \<and> map created_at (permit_series_rows db1) = map created_at (permit_series_rows db))"
proof -
  note r = activate_endpoint_rows[OF assms]
  have "\<forall>db1. activate k db = Inr ((), db1) \<longrightarrow>
             map series_pk (permit_series_rows db1) = map series_pk (permit_series_rows db)
             \<and> map created_at (permit_series_rows db1) = map created_at (permit_series_rows db)"
    using activate_Inr by (auto simp: comp_def)
  with r(1) show ?thesis by blast
qed

text \<open>
  C7 on the database of \<^verbatim>\<open>test_series_get_activated\<close>: both series are recent,
  so both are still there after the activation, with their flags exchanged.
\<close>

theorem C7_witness:
  "activate_endpoint 2 (days 3) 1 get_activated_db =
       Inr (0, get_activated_db\<lparr>permit_series_rows :=
                 [new_series\<lparr>active := True\<rparr>, active_series\<lparr>active := False\<rparr>]\<rparr>)
   \<and> map series_pk [new_series\<lparr>active := True\<rparr>, active_series\<lparr>active := False\<rparr>]
       = map series_pk (permit_series_rows get_activated_db)
   \<and> activate 1 get_activated_db =
       Inr ((), get_activated_db\<lparr>permit_series_rows :=
                 [new_series\<lparr>active := True\<rparr>, active_series\<lparr>active := False\<rparr>]\<rparr>)"
proof -
  have e: "activate_endpoint 2 (days 3) 1 get_activated_db =
       Inr (0, get_activated_db\<lparr>permit_series_rows :=
                 [new_series\<lparr>active := True\<rparr>, active_series\<lparr>active := False\<rparr>]\<rparr>)"
    by code_simp
  have a: "activate 1 get_activated_db =
       Inr ((), get_activated_db\<lparr>permit_series_rows :=
                 [new_series\<lparr>active := True\<rparr>, active_series\<lparr>active := False\<rparr>]\<rparr>)"
    by code_simp
  from C7_activation_deletes_only_prunable_series[OF e] a
  have "map series_pk [new_series\<lparr>active := True\<rparr>, active_series\<lparr>active := False\<rparr>]
       = map series_pk (permit_series_rows get_activated_db)" by simp
  with e a show ?thesis by simp
qed

end
